theory Spec2Isabelle
  imports Complex_Main "HOL-Library.Multiset"
begin

section \<open>Python strings\<close>

text \<open>
  A Python \<^verbatim>\<open>str\<close> is a sequence of Unicode code points, so it is modelled as a list of
  natural numbers; \<open>lit\<close> turns an Isabelle string literal into such a list.
\<close>

type_synonym pystr = "nat list"

definition lit :: "string \<Rightarrow> pystr" where
  "lit s = map of_char s"

text \<open>\<^verbatim>\<open>str.strip()\<close> removes the code points for which \<^verbatim>\<open>str.isspace\<close> holds, at both ends.\<close>

definition py_isspace :: "nat \<Rightarrow> bool" where
  "py_isspace c \<longleftrightarrow>
     (9 \<le> c \<and> c \<le> 13) \<or> (28 \<le> c \<and> c \<le> 32) \<or> c = 133 \<or> c = 160 \<or> c = 5760 \<or>
     (8192 \<le> c \<and> c \<le> 8202) \<or> c = 8232 \<or> c = 8233 \<or> c = 8239 \<or> c = 8287 \<or> c = 12288"

definition strip :: "pystr \<Rightarrow> pystr" where
  "strip s = rev (dropWhile py_isspace (rev (dropWhile py_isspace s)))"

text \<open>\<^verbatim>\<open>s.find(c)\<close> and \<^verbatim>\<open>s.rfind(c)\<close> for a one-character needle: the index, or -1.\<close>

fun str_find :: "nat \<Rightarrow> pystr \<Rightarrow> int" where
  "str_find c [] = -1"
| "str_find c (x # xs) =
     (if x = c then 0 else (let r = str_find c xs in if r = -1 then -1 else r + 1))"

definition str_rfind :: "nat \<Rightarrow> pystr \<Rightarrow> int" where
  "str_rfind c s =
     (let r = str_find c (rev s) in if r = -1 then -1 else int (length s) - 1 - r)"

text \<open>\<^verbatim>\<open>s[i:j]\<close> for indices that are not negative.\<close>

definition slice :: "pystr \<Rightarrow> int \<Rightarrow> int \<Rightarrow> pystr" where
  "slice s i j = take (nat j - nat i) (drop (nat i) s)"

text \<open>\<^verbatim>\<open>s.replace(a, b)\<close> for one-character \<open>a\<close> and \<open>b\<close>.\<close>

definition replace1 :: "nat \<Rightarrow> nat \<Rightarrow> pystr \<Rightarrow> pystr" where
  "replace1 a b s = map (\<lambda>c. if c = a then b else c) s"

section \<open>The JSON decoder used by \<^verbatim>\<open>json.loads\<close>\<close>

text \<open>
  The values \<^verbatim>\<open>json.loads\<close> produces. A float keeps the text of its literal (the rounding
  to a binary float is not modelled); an object is a Python dict, kept as an association
  list in insertion order.
\<close>

datatype json =
    JNull
  | JBool bool
  | JInt int
  | JFloat pystr
  | JString pystr
  | JArray "json list"
  | JObject "(pystr \<times> json) list"

text \<open>\<^verbatim>\<open>d[k] = v\<close> on a dict: a present key keeps its place and takes the new value.\<close>

fun dict_set :: "'k \<Rightarrow> 'v \<Rightarrow> ('k \<times> 'v) list \<Rightarrow> ('k \<times> 'v) list" where
  "dict_set k v [] = [(k, v)]"
| "dict_set k v (p # ps) = (if fst p = k then (k, v) # ps else p # dict_set k v ps)"

fun dict_get :: "('k \<times> 'v) list \<Rightarrow> 'k \<Rightarrow> 'v option" where
  "dict_get [] k = None"
| "dict_get (p # ps) k = (if fst p = k then Some (snd p) else dict_get ps k)"

definition is_json_ws :: "nat \<Rightarrow> bool" where
  "is_json_ws c \<longleftrightarrow> c = 32 \<or> c = 9 \<or> c = 10 \<or> c = 13"

definition skip_ws :: "pystr \<Rightarrow> pystr" where
  "skip_ws cs = dropWhile is_json_ws cs"

definition is_digit :: "nat \<Rightarrow> bool" where
  "is_digit c \<longleftrightarrow> 48 \<le> c \<and> c \<le> 57"

definition hex_val :: "nat \<Rightarrow> nat option" where
  "hex_val c =
     (if 48 \<le> c \<and> c \<le> 57 then Some (c - 48)
      else if 97 \<le> c \<and> c \<le> 102 then Some (c - 87)
      else if 65 \<le> c \<and> c \<le> 70 then Some (c - 55)
      else None)"

text \<open>The four hexadecimal digits of a \<^verbatim>\<open>\uXXXX\<close> escape.\<close>

definition hex4 :: "nat \<Rightarrow> nat \<Rightarrow> nat \<Rightarrow> nat \<Rightarrow> nat option" where
  "hex4 a b c d =
     (case hex_val a of None \<Rightarrow> None | Some w \<Rightarrow>
     (case hex_val b of None \<Rightarrow> None | Some x \<Rightarrow>
     (case hex_val c of None \<Rightarrow> None | Some y \<Rightarrow>
     (case hex_val d of None \<Rightarrow> None | Some z \<Rightarrow>
        Some (((w * 16 + x) * 16 + y) * 16 + z)))))"

definition decode_uXXXX :: "pystr \<Rightarrow> nat option" where
  "decode_uXXXX cs = (case cs of a # b # c # d # _ \<Rightarrow> hex4 a b c d | _ \<Rightarrow> None)"

definition unescape :: "nat \<Rightarrow> nat option" where
  "unescape e =
     (if e = 34 then Some 34
      else if e = 92 then Some 92
      else if e = 47 then Some 47
      else if e = 98 then Some 8
      else if e = 102 then Some 12
      else if e = 110 then Some 10
      else if e = 114 then Some 13
      else if e = 116 then Some 9
      else None)"

definition is_high_surrogate :: "nat \<Rightarrow> bool" where
  "is_high_surrogate c \<longleftrightarrow> 55296 \<le> c \<and> c \<le> 56319"

definition is_low_surrogate :: "nat \<Rightarrow> bool" where
  "is_low_surrogate c \<longleftrightarrow> 56320 \<le> c \<and> c \<le> 57343"

definition join_surrogates :: "nat \<Rightarrow> nat \<Rightarrow> nat" where
  "join_surrogates hi lo = 65536 + (hi - 55296) * 1024 + (lo - 56320)"

definition cons_char :: "nat \<Rightarrow> (pystr \<times> pystr) option \<Rightarrow> (pystr \<times> pystr) option" where
  "cons_char c r = (case r of None \<Rightarrow> None | Some (s, rest) \<Rightarrow> Some (c # s, rest))"

text \<open>
  The string scanner, started after the opening quote (strict mode: a control character
  inside a string is an error). It gives the decoded string and the text after the
  closing quote.
\<close>

fun scanstring :: "pystr \<Rightarrow> (pystr \<times> pystr) option" where
  "scanstring [] = None"
| "scanstring (c # cs) =
     (if c = 34 then Some ([], cs)
      else if c = 92 then
        (case cs of
           [] \<Rightarrow> None
         | e # es \<Rightarrow>
             if e = 117 then
               (case decode_uXXXX es of
                  None \<Rightarrow> None
                | Some uni \<Rightarrow>
                    if is_high_surrogate uni \<and> 6 < length (drop 4 es)
                       \<and> take 2 (drop 4 es) = [92, 117] then
                      (case decode_uXXXX (drop 6 es) of
                         None \<Rightarrow> None
                       | Some uni2 \<Rightarrow>
                           if is_low_surrogate uni2
                           then cons_char (join_surrogates uni uni2) (scanstring (drop 10 es))
                           else cons_char uni (scanstring (drop 4 es)))
                    else cons_char uni (scanstring (drop 4 es)))
             else (case unescape e of
                     None \<Rightarrow> None
                   | Some d \<Rightarrow> cons_char d (scanstring es)))
      else if c \<le> 31 then None
      else cons_char c (scanstring cs))"

text \<open>Whether \<open>p\<close> is a prefix of the text; the text after it.\<close>

definition after_prefix :: "pystr \<Rightarrow> pystr \<Rightarrow> pystr option" where
  "after_prefix p cs = (if take (length p) cs = p then Some (drop (length p) cs) else None)"

definition digits_val :: "pystr \<Rightarrow> int" where
  "digits_val ds = foldl (\<lambda>a d. 10 * a + (int d - 48)) 0 ds"

text \<open>
  The number matcher follows the decoder's pattern
  \<^verbatim>\<open>(-?(?:0|[1-9]\d*))(\.\d+)?([eE][-+]?\d+)?\<close>: an integer part without a leading zero, an
  optional fraction and an optional exponent. Each function gives the text its group
  matches at the head of the input (empty when the group does not match).
\<close>

definition int_part :: "pystr \<Rightarrow> pystr" where
  "int_part cs =
     (case cs of
        [] \<Rightarrow> []
      | d # _ \<Rightarrow> if d = 48 then [d] else if is_digit d then takeWhile is_digit cs else [])"

definition frac_part :: "pystr \<Rightarrow> pystr" where
  "frac_part cs =
     (case cs of
        p # f # _ \<Rightarrow> if p = 46 \<and> is_digit f then p # takeWhile is_digit (tl cs) else []
      | _ \<Rightarrow> [])"

definition exp_part :: "pystr \<Rightarrow> pystr" where
  "exp_part cs =
     (case cs of
        [] \<Rightarrow> []
      | e # r \<Rightarrow>
          if e = 101 \<or> e = 69 then
            (let sgn = (case r of [] \<Rightarrow> [] | s # _ \<Rightarrow> if s = 45 \<or> s = 43 then [s] else []);
                 ds = takeWhile is_digit (drop (length sgn) r)
             in if ds = [] then [] else e # sgn @ ds)
          else [])"

definition sign_part :: "pystr \<Rightarrow> pystr" where
  "sign_part cs = (case cs of [] \<Rightarrow> [] | c # _ \<Rightarrow> if c = 45 then [c] else [])"

text \<open>A literal with a fraction or an exponent is a float, any other an integer.\<close>

definition match_number :: "pystr \<Rightarrow> (json \<times> pystr) option" where
  "match_number cs =
     (let sgn = sign_part cs;
          r0 = drop (length sgn) cs;
          ipart = int_part r0
      in if ipart = [] then None
         else
           (let r1 = drop (length ipart) r0;
                fpart = frac_part r1;
                r2 = drop (length fpart) r1;
                epart = exp_part r2;
                rest = drop (length epart) r2
            in if fpart = [] \<and> epart = []
               then Some (JInt ((if sgn = [] then 1 else -1) * digits_val ipart), rest)
               else Some (JFloat (sgn @ ipart @ fpart @ epart), rest)))"

text \<open>
  The result of scanning: a value and the remaining text, a syntax error, or the end of
  the recursion budget.
\<close>

datatype 'a scan = Parsed 'a pystr | Invalid | Exhausted

text \<open>
  The recursive-descent scanner. \<open>scan_once\<close> reads one value at the head of the text;
  \<open>parse_array\<close> and \<open>parse_object\<close> are the loops over the elements of an array and the
  members of an object, entered at an element or a member name.
\<close>

fun scan_once :: "nat \<Rightarrow> pystr \<Rightarrow> json scan"
  and parse_array :: "nat \<Rightarrow> pystr \<Rightarrow> json list \<Rightarrow> json scan"
  and parse_object :: "nat \<Rightarrow> pystr \<Rightarrow> (pystr \<times> json) list \<Rightarrow> json scan"
where
  "scan_once 0 cs = Exhausted"
| "scan_once (Suc n) [] = Invalid"
| "scan_once (Suc n) (c # cs) =
     (if c = 34 then
        (case scanstring cs of None \<Rightarrow> Invalid | Some (s, rest) \<Rightarrow> Parsed (JString s) rest)
      else if c = 123 then
        (case skip_ws cs of
           [] \<Rightarrow> parse_object n [] []
         | d # rest \<Rightarrow> if d = 125 then Parsed (JObject []) rest
                      else parse_object n (d # rest) [])
      else if c = 91 then
        (case skip_ws cs of
           [] \<Rightarrow> parse_array n [] []
         | d # rest \<Rightarrow> if d = 93 then Parsed (JArray []) rest
                      else parse_array n (d # rest) [])
      else if c = 110 \<and> after_prefix (lit ''ull'') cs \<noteq> None then
        Parsed JNull (drop 3 cs)
      else if c = 116 \<and> after_prefix (lit ''rue'') cs \<noteq> None then
        Parsed (JBool True) (drop 3 cs)
      else if c = 102 \<and> after_prefix (lit ''alse'') cs \<noteq> None then
        Parsed (JBool False) (drop 4 cs)
      else if c = 78 \<and> after_prefix (lit ''aN'') cs \<noteq> None then
        Parsed (JFloat (lit ''NaN'')) (drop 2 cs)
      else if c = 73 \<and> after_prefix (lit ''nfinity'') cs \<noteq> None then
        Parsed (JFloat (lit ''Infinity'')) (drop 7 cs)
      else if c = 45 \<and> after_prefix (lit ''Infinity'') cs \<noteq> None then
        Parsed (JFloat (lit ''-Infinity'')) (drop 8 cs)
      else
        (case match_number (c # cs) of
           None \<Rightarrow> Invalid
         | Some (v, rest) \<Rightarrow> Parsed v rest))"
| "parse_array 0 cs acc = Exhausted"
| "parse_array (Suc n) cs acc =
     (case scan_once n cs of
        Exhausted \<Rightarrow> Exhausted
      | Invalid \<Rightarrow> Invalid
      | Parsed v rest \<Rightarrow>
          (case skip_ws rest of
             [] \<Rightarrow> Invalid
           | d # rest' \<Rightarrow>
               if d = 93 then Parsed (JArray (rev (v # acc))) rest'
               else if d = 44 then parse_array n (skip_ws rest') (v # acc)
               else Invalid))"
| "parse_object 0 cs acc = Exhausted"
| "parse_object (Suc n) cs acc =
     (case cs of
        [] \<Rightarrow> Invalid
      | q # cs1 \<Rightarrow>
          if q \<noteq> 34 then Invalid
          else
            (case scanstring cs1 of
               None \<Rightarrow> Invalid
             | Some (key, cs2) \<Rightarrow>
                 (case skip_ws cs2 of
                    [] \<Rightarrow> Invalid
                  | colon # cs3 \<Rightarrow>
                      if colon \<noteq> 58 then Invalid
                      else
                        (case scan_once n (skip_ws cs3) of
                           Exhausted \<Rightarrow> Exhausted
                         | Invalid \<Rightarrow> Invalid
                         | Parsed v rest \<Rightarrow>
                             (case skip_ws rest of
                                [] \<Rightarrow> Invalid
                              | d # rest' \<Rightarrow>
                                  if d = 125 then Parsed (JObject (dict_set key v acc)) rest'
                                  else if d = 44
                                  then parse_object n (skip_ws rest') (dict_set key v acc)
                                  else Invalid)))))"

text \<open>
  \<^verbatim>\<open>json.loads(s)\<close>: leading whitespace, one value, trailing whitespace, nothing else.
  Every error of the decoder is the result \<open>None\<close>. The budget is twice the length of
  the text plus two, which the scanner never uses up (lemma \<open>json_loads_budget\<close>).
\<close>

definition json_loads :: "pystr \<Rightarrow> json option" where
  "json_loads s =
     (case scan_once (2 * length s + 2) (skip_ws s) of
        Parsed v rest \<Rightarrow> if skip_ws rest = [] then Some v else None
      | Invalid \<Rightarrow> None
      | Exhausted \<Rightarrow> None)"

section \<open>\<^verbatim>\<open>llm.extract_json_from_text\<close>\<close>

text \<open>
  The argument may be \<^verbatim>\<open>None\<close>; \<^verbatim>\<open>not s\<close> holds for \<^verbatim>\<open>None\<close> and for the empty string.
  Each \<^verbatim>\<open>except Exception\<close> is the \<open>None\<close> branch of the decoder's result.
\<close>

definition extract_json_from_text :: "pystr option \<Rightarrow> json option" where
  "extract_json_from_text raw =
     (case raw of
        None \<Rightarrow> None
      | Some s0 \<Rightarrow>
          if s0 = [] then None
          else
            (let s = strip s0 in
             case json_loads s of
               Some v \<Rightarrow> Some v
             | None \<Rightarrow>
                 (let start = str_find 123 s;
                      end = str_rfind 125 s
                  in if start \<noteq> -1 \<and> end \<noteq> -1 \<and> end \<ge> start then
                       (let candidate = slice s start (end + 1) in
                        case json_loads candidate of
                          Some v \<Rightarrow> Some v
                        | None \<Rightarrow>
                            (let cleaned = replace1 39 34 (replace1 10 32 candidate)
                             in json_loads cleaned))
                     else None)))"

section \<open>\<^verbatim>\<open>nearby.py\<close>: removing duplicates, sorting, truncating\<close>

text \<open>
  A finite float is a rational number, and the comparisons of the code are those of the
  rationals (NaN and the infinities are not modelled). \<^verbatim>\<open>round(x, n)\<close> rounds the exact
  value of \<open>x\<close> to \<open>n\<close> decimals, a tie going to the even digit; the final rounding of
  that decimal to the nearest float is not modelled.
\<close>

definition round_half_even :: "rat \<Rightarrow> int" where
  "round_half_even x =
     (let f = \<lfloor>x\<rfloor>; d = x - of_int f
      in if d < 1 / 2 then f else if 1 / 2 < d then f + 1 else if even f then f else f + 1)"

definition py_round :: "rat \<Rightarrow> nat \<Rightarrow> rat" where
  "py_round x n = of_int (round_half_even (x * 10 ^ n)) / 10 ^ n"

text \<open>An entry of \<^verbatim>\<open>results\<close>: the dict with the keys name, address, lat, lon, distance_km.\<close>

record hit =
  name :: pystr
  address :: pystr
  lat :: rat
  lon :: rat
  distance_km :: rat

definition key_of :: "hit \<Rightarrow> rat \<times> rat" where
  "key_of r = (py_round (lat r) 5, py_round (lon r) 5)"

text \<open>
  The body of the loop over \<^verbatim>\<open>results\<close> that fills the dict \<^verbatim>\<open>uniq\<close>: an entry is
  stored when its key is new or when the stored entry is strictly farther away.
\<close>

definition store :: "hit \<Rightarrow> ((rat \<times> rat) \<times> hit) list \<Rightarrow> ((rat \<times> rat) \<times> hit) list" where
  "store r uniq =
     (case dict_get uniq (key_of r) of
        None \<Rightarrow> dict_set (key_of r) r uniq
      | Some old \<Rightarrow> if distance_km old > distance_km r then dict_set (key_of r) r uniq else uniq)"

fun dedupe :: "hit list \<Rightarrow> ((rat \<times> rat) \<times> hit) list \<Rightarrow> ((rat \<times> rat) \<times> hit) list" where
  "dedupe [] uniq = uniq"
| "dedupe (r # rs) uniq = dedupe rs (store r uniq)"

text \<open>\<^verbatim>\<open>xs[:limit]\<close>: a negative limit counts from the end.\<close>

definition take_limit :: "int \<Rightarrow> 'a list \<Rightarrow> 'a list" where
  "take_limit limit xs =
     (if 0 \<le> limit then take (nat limit) xs else take (length xs - nat (- limit)) xs)"

text \<open>
  \<^verbatim>\<open>sorted(list(uniq.values()), key=...)[:limit]\<close>. Python's sort is stable, as is
  \<open>sort_key\<close>, and a stable sort has one result.
\<close>

definition dedupe_sort :: "hit list \<Rightarrow> int \<Rightarrow> hit list" where
  "dedupe_sort results limit =
     take_limit limit (sort_key distance_km (map snd (dedupe results [])))"

text \<open>
  Two invariants of the loop, used in the proofs: every stored entry sits under its own
  key and no key occurs twice; every hit seen so far has a stored entry under its key
  that is at least as near, and every stored entry is a hit seen so far.
\<close>

definition keyed :: "((rat \<times> rat) \<times> hit) list \<Rightarrow> bool" where
  "keyed uniq \<longleftrightarrow> distinct (map fst uniq) \<and> (\<forall>(k, h) \<in> set uniq. key_of h = k)"

definition covers :: "hit set \<Rightarrow> ((rat \<times> rat) \<times> hit) list \<Rightarrow> bool" where
  "covers seen uniq \<longleftrightarrow>
     (\<forall>r \<in> seen. \<exists>h. dict_get uniq (key_of r) = Some h \<and> distance_km h \<le> distance_km r)
     \<and> snd ` set uniq \<subseteq> seen"

section \<open>Exceptions and the services the code calls\<close>

text \<open>
  An exception that \<^verbatim>\<open>except Exception\<close> catches: the name of its class and the text
  \<^verbatim>\<open>str(e)\<close>. A call that may raise gives \<open>Inl\<close> of the exception or \<open>Inr\<close> of its value.
  (\<^verbatim>\<open>KeyboardInterrupt\<close> and \<^verbatim>\<open>SystemExit\<close> are no instances of \<^verbatim>\<open>Exception\<close> and are not
  modelled.)
\<close>

datatype exn = Exn (kind: pystr) (message: pystr)

text \<open>
  A \<^verbatim>\<open>geopy.Location\<close>: its coordinates, its address and the entry \<^verbatim>\<open>display_name\<close> of its
  \<^verbatim>\<open>raw\<close> dict, \<open>None\<close> when the dict has no such key.
\<close>

record location =
  latitude :: rat
  longitude :: rat
  loc_address :: pystr
  display_name :: "pystr option"

section \<open>\<^verbatim>\<open>nearby.geocode_location\<close>\<close>

text \<open>The dict with the keys lat, lon and address that \<^verbatim>\<open>geocode_location\<close> returns.\<close>

record geocoded =
  g_lat :: rat
  g_lon :: rat
  g_address :: pystr

text \<open>
  \<^verbatim>\<open>geocode_multi\<close> is the rate-limited geocoder: it raises, or gives a location or \<^verbatim>\<open>None\<close>.
  A location is always truthy.
\<close>

definition geocode_location :: "(pystr \<Rightarrow> exn + location option) \<Rightarrow> pystr \<Rightarrow> geocoded option" where
  "geocode_location geocode_multi text =
     (case geocode_multi (text @ lit '', India'') of
        Inl e \<Rightarrow> None
      | Inr None \<Rightarrow> None
      | Inr (Some loc) \<Rightarrow>
          Some \<lparr>g_lat = latitude loc, g_lon = longitude loc, g_address = loc_address loc\<rparr>)"

section \<open>\<^verbatim>\<open>nearby.nearby_search\<close>\<close>

text \<open>
  \<^verbatim>\<open>geolocator.geocode(q, exactly_one=False, limit=n)\<close> is a call to a network service: from
  the state \<open>w\<close> of the world it raises or gives a list of locations or \<^verbatim>\<open>None\<close>, and leaves
  a new state. Every call is written to a log with its query, its limit and its answer.
\<close>

type_synonym answer = "exn + location list option"

type_synonym call = "pystr \<times> int \<times> answer"

type_synonym 'w geocoder = "'w \<Rightarrow> pystr \<Rightarrow> int \<Rightarrow> answer \<times> 'w"

text \<open>\<^verbatim>\<open>if places\<close>: neither \<^verbatim>\<open>None\<close> nor the empty list.\<close>

definition found :: "location list option \<Rightarrow> bool" where
  "found places \<longleftrightarrow> (case places of None \<Rightarrow> False | Some ps \<Rightarrow> ps \<noteq> [])"

text \<open>
  The loop \<^verbatim>\<open>for q in tries\<close>: the first answer that holds a place ends it, an exception
  sets \<^verbatim>\<open>places\<close> to \<^verbatim>\<open>None\<close>, and an empty answer stays in \<^verbatim>\<open>places\<close>.
\<close>

fun try_variants ::
  "'w geocoder \<Rightarrow> int \<Rightarrow> pystr list \<Rightarrow> location list option \<Rightarrow> 'w \<times> call list
     \<Rightarrow> location list option \<times> 'w \<times> call list" where
  "try_variants geocode n [] places st = (places, st)"
| "try_variants geocode n (q # tries) places (w, calls) =
     (case geocode w q n of
        (Inl e, w') \<Rightarrow> try_variants geocode n tries None (w', calls @ [(q, n, Inl e)])
      | (Inr p, w') \<Rightarrow>
          if found p then (p, w', calls @ [(q, n, Inr p)])
          else try_variants geocode n tries p (w', calls @ [(q, n, Inr p)]))"

text \<open>
  The body of the loop \<^verbatim>\<open>for p in places\<close>. \<^verbatim>\<open>haversine\<close> may raise (the library refuses a
  latitude or longitude out of range), and then the place is skipped.
\<close>

definition make_hit ::
  "(rat \<times> rat \<Rightarrow> rat \<times> rat \<Rightarrow> exn + rat) \<Rightarrow> pystr \<Rightarrow> rat \<Rightarrow> rat \<Rightarrow> location \<Rightarrow> exn + hit" where
  "make_hit haversine query lat0 lon0 p =
     (case haversine (lat0, lon0) (latitude p, longitude p) of
        Inl e \<Rightarrow> Inl e
      | Inr dst \<Rightarrow>
          Inr \<lparr>name = (case display_name p of Some d \<Rightarrow> d | None \<Rightarrow> query),
               address = (case display_name p of
                            Some d \<Rightarrow> if d \<noteq> [] then d else loc_address p
                          | None \<Rightarrow> loc_address p),
               lat = latitude p,
               lon = longitude p,
               distance_km = py_round dst 2\<rparr>)"

fun make_hits ::
  "(rat \<times> rat \<Rightarrow> rat \<times> rat \<Rightarrow> exn + rat) \<Rightarrow> pystr \<Rightarrow> rat \<Rightarrow> rat \<Rightarrow> location list \<Rightarrow> hit list" where
  "make_hits haversine query lat0 lon0 [] = []"
| "make_hits haversine query lat0 lon0 (p # ps) =
     (case make_hit haversine query lat0 lon0 p of
        Inl e \<Rightarrow> make_hits haversine query lat0 lon0 ps
      | Inr r \<Rightarrow> r # make_hits haversine query lat0 lon0 ps)"

text \<open>
  The three queries of \<^verbatim>\<open>tries\<close> and the query of the fallback. \<open>fmt\<close> is the text of a
  float in an f-string.
\<close>

definition tries :: "(rat \<Rightarrow> pystr) \<Rightarrow> pystr \<Rightarrow> rat \<Rightarrow> rat \<Rightarrow> pystr list" where
  "tries fmt query lat0 lon0 =
     [query @ lit '' near '' @ fmt lat0 @ lit '','' @ fmt lon0,
      query @ lit '' near India'',
      query @ lit '' '' @ fmt lat0 @ lit '' '' @ fmt lon0]"

definition fallback :: "pystr \<Rightarrow> pystr" where
  "fallback query = query @ lit '' India''"

definition nearby_search ::
  "'w geocoder \<Rightarrow> (rat \<times> rat \<Rightarrow> rat \<times> rat \<Rightarrow> exn + rat) \<Rightarrow> (rat \<Rightarrow> pystr) \<Rightarrow> 'w
     \<Rightarrow> pystr \<Rightarrow> rat \<Rightarrow> rat \<Rightarrow> int \<Rightarrow> hit list \<times> 'w \<times> call list" where
  "nearby_search geocode haversine fmt w query lat0 lon0 limit =
     (case try_variants geocode (limit * 2) (tries fmt query lat0 lon0) None (w, []) of
        (places, w1, calls1) \<Rightarrow>
          (case (if \<not> found places then
                   (case geocode w1 (fallback query) (limit * 2) of
                      (Inl e, w2) \<Rightarrow> (None, w2, calls1 @ [(fallback query, limit * 2, Inl e)])
                    | (Inr p, w2) \<Rightarrow> (p, w2, calls1 @ [(fallback query, limit * 2, Inr p)]))
                 else (places, w1, calls1)) of
             (places', st) \<Rightarrow>
               (dedupe_sort
                  (case places' of
                     None \<Rightarrow> []
                   | Some ps \<Rightarrow> make_hits haversine query lat0 lon0 ps)
                  limit,
                st)))"

text \<open>What is read off a logged call: whether it gave a place, and the places it gave.\<close>

definition answered :: "call \<Rightarrow> bool" where
  "answered c \<longleftrightarrow> (case snd (snd c) of Inl e \<Rightarrow> False | Inr p \<Rightarrow> found p)"

definition places_of :: "call \<Rightarrow> location list" where
  "places_of c = (case snd (snd c) of Inr (Some ps) \<Rightarrow> ps | _ \<Rightarrow> [])"

text \<open>
  A log replays from the state \<open>w\<close> to the state \<open>w'\<close> when each of its answers is the one
  the geocoder gives to the logged query and limit in the state the calls before it have
  left, and the last call leaves \<open>w'\<close>.
\<close>

fun replays :: "'w geocoder \<Rightarrow> 'w \<Rightarrow> call list \<Rightarrow> 'w \<Rightarrow> bool" where
  "replays geocode w [] w' \<longleftrightarrow> w' = w"
| "replays geocode w (c # cs) w' \<longleftrightarrow>
     (case geocode w (fst c) (fst (snd c)) of (a, w1) \<Rightarrow> a = snd (snd c) \<and> replays geocode w1 cs w')"

section \<open>\<^verbatim>\<open>utils.translate_text\<close>\<close>

definition LANG_MAP :: "(pystr \<times> pystr) list" where
  "LANG_MAP =
     [(lit ''English'', lit ''en''), (lit ''Hindi'', lit ''hi''), (lit ''Kannada'', lit ''kn''),
      (lit ''Marathi'', lit ''mr''), (lit ''Tamil'', lit ''ta''), (lit ''Telugu'', lit ''te''),
      (lit ''Bengali'', lit ''bn''), (lit ''Gujarati'', lit ''gu'')]"

text \<open>
  \<open>translate target text\<close> stands for \<^verbatim>\<open>GoogleTranslator(source='auto', target=...).translate(text)\<close>,
  which raises or gives the translation. The text is a \<^verbatim>\<open>str\<close> or \<^verbatim>\<open>None\<close>. The second
  component of the result lists the calls made to the translator, each with its target
  code and its text.
\<close>

definition translate_text ::
  "(pystr \<Rightarrow> pystr \<Rightarrow> exn + pystr) \<Rightarrow> pystr option \<Rightarrow> pystr
     \<Rightarrow> pystr option \<times> (pystr \<times> pystr) list" where
  "translate_text translate text target_language_name =
     (case text of
        None \<Rightarrow> (None, [])
      | Some t \<Rightarrow>
          if t = [] then (Some t, [])
          else
            (let target_code = (case dict_get LANG_MAP target_language_name of
                                  Some code \<Rightarrow> code
                                | None \<Rightarrow> lit ''en'')
             in (case translate target_code t of
                   Inr r \<Rightarrow> Some r
                 | Inl e \<Rightarrow> Some t,
                 [(target_code, t)])))"

section \<open>\<^verbatim>\<open>llm.call_gemini\<close>\<close>

text \<open>
  The Python values met in a response: \<^verbatim>\<open>None\<close>, booleans, numbers, strings, lists, and
  dicts with string keys.
\<close>

datatype pyval =
    PNone
  | PBool bool
  | PInt int
  | PFloat rat
  | PStr pystr
  | PList "pyval list"
  | PDict "(pystr \<times> pyval) list"

fun truthy :: "pyval \<Rightarrow> bool" where
  "truthy PNone = False"
| "truthy (PBool b) = b"
| "truthy (PInt i) = (i \<noteq> 0)"
| "truthy (PFloat x) = (x \<noteq> 0)"
| "truthy (PStr s) = (s \<noteq> [])"
| "truthy (PList xs) = (xs \<noteq> [])"
| "truthy (PDict d) = (d \<noteq> [])"

text \<open>
  What \<^verbatim>\<open>generate_content\<close> gives back: a dict, or an object of the SDK. For an object,
  the first field is the attribute \<^verbatim>\<open>text\<close> (\<open>None\<close>: \<^verbatim>\<open>hasattr\<close> is false, there is no such
  attribute or reading it raises \<^verbatim>\<open>AttributeError\<close>; \<open>Inl\<close>: reading it raises another
  exception, which \<^verbatim>\<open>hasattr\<close> lets through; \<open>Inr\<close>: its value) and the second is
  \<^verbatim>\<open>str(resp)\<close>, which may raise. A dict has no attribute \<^verbatim>\<open>text\<close>.
\<close>

datatype response =
    Obj "(exn + pyval) option" "exn + pystr"
  | Dict "(pystr \<times> pyval) list"

text \<open>\<^verbatim>\<open>d.get(k)\<close> and \<^verbatim>\<open>a or b\<close>.\<close>

definition py_get :: "(pystr \<times> pyval) list \<Rightarrow> pystr \<Rightarrow> pyval" where
  "py_get d k = (case dict_get d k of Some v \<Rightarrow> v | None \<Rightarrow> PNone)"

definition py_or :: "pyval \<Rightarrow> pyval \<Rightarrow> pyval" where
  "py_or a b = (if truthy a then a else b)"

text \<open>The loop \<^verbatim>\<open>for k in ("content", "text", "output")\<close>; \<open>None\<close> when it returns nothing.\<close>

fun first_field :: "pyval \<Rightarrow> pystr list \<Rightarrow> pyval option" where
  "first_field first [] = None"
| "first_field first (k # ks) =
     (case first of
        PDict fd \<Rightarrow> if truthy (py_get fd k) then Some (py_get fd k) else first_field first ks
      | _ \<Rightarrow> first_field first ks)"

text \<open>
  The body of the \<^verbatim>\<open>try\<close> block. \<open>generate_content model_name prompt\<close> stands for building
  the model and calling it; \<open>dumps\<close> is \<^verbatim>\<open>json.dumps\<close> on the response dict.
\<close>

definition call_gemini_try ::
  "(pystr \<Rightarrow> pystr \<Rightarrow> exn + response) \<Rightarrow> (pyval \<Rightarrow> exn + pystr) \<Rightarrow> pystr \<Rightarrow> pystr
     \<Rightarrow> exn + pyval" where
  "call_gemini_try generate_content dumps prompt model_name =
     (case generate_content model_name prompt of
        Inl e \<Rightarrow> Inl e
      | Inr (Obj text str_resp) \<Rightarrow>
          (case text of
             Some (Inl e) \<Rightarrow> Inl e
           | Some (Inr t) \<Rightarrow> if truthy t then Inr t else map_sum id PStr str_resp
           | None \<Rightarrow> map_sum id PStr str_resp)
      | Inr (Dict resp) \<Rightarrow>
          (let cands = py_or (py_get resp (lit ''candidates''))
                         (py_or (py_get resp (lit ''outputs'')) (PList []))
           in case (case cands of
                      PList (first # rest) \<Rightarrow>
                        first_field first [lit ''content'', lit ''text'', lit ''output'']
                    | _ \<Rightarrow> None) of
                Some v \<Rightarrow> Inr v
              | None \<Rightarrow>
                  (case py_get resp (lit ''output'') of
                     PStr out \<Rightarrow> Inr (PStr out)
                   | _ \<Rightarrow> map_sum id PStr (dumps (PDict resp)))))"

text \<open>
  \<^verbatim>\<open>json.dumps\<close> of a string, with the default \<^verbatim>\<open>ensure_ascii\<close>: the short escapes, the
  printable ASCII characters as they are, and every other code point as \<^verbatim>\<open>\uXXXX\<close> with
  lower-case digits, above the basic plane as a surrogate pair.
\<close>

definition hex_digit :: "nat \<Rightarrow> nat" where
  "hex_digit d = (if d < 10 then 48 + d else 87 + d)"

definition u_escape :: "nat \<Rightarrow> pystr" where
  "u_escape n =
     [92, 117, hex_digit (n div 4096), hex_digit (n div 256 mod 16),
      hex_digit (n div 16 mod 16), hex_digit (n mod 16)]"

definition escape_char :: "nat \<Rightarrow> pystr" where
  "escape_char c =
     (if c = 34 then [92, 34]
      else if c = 92 then [92, 92]
      else if c = 10 then [92, 110]
      else if c = 13 then [92, 114]
      else if c = 9 then [92, 116]
      else if c = 12 then [92, 102]
      else if c = 8 then [92, 98]
      else if 32 \<le> c \<and> c \<le> 126 then [c]
      else if c < 65536 then u_escape c
      else u_escape (55296 + (c - 65536) div 1024) @ u_escape (56320 + (c - 65536) mod 1024))"

definition encode_basestring_ascii :: "pystr \<Rightarrow> pystr" where
  "encode_basestring_ascii s = 34 # concat (map escape_char s) @ [34]"

text \<open>\<^verbatim>\<open>json.dumps({"error": m})\<close>.\<close>

definition dumps_error :: "pystr \<Rightarrow> pystr" where
  "dumps_error m = lit ''{\"error\": '' @ encode_basestring_ascii m @ lit ''}''"

text \<open>
  \<^verbatim>\<open>call_gemini\<close>: the value of the \<^verbatim>\<open>try\<close> block, or for an exception \<open>e\<close> the text
  \<^verbatim>\<open>json.dumps({"error": f"{type(e).__name__}: {e}"})\<close>.
\<close>

definition call_gemini ::
  "(pystr \<Rightarrow> pystr \<Rightarrow> exn + response) \<Rightarrow> (pyval \<Rightarrow> exn + pystr) \<Rightarrow> pystr \<Rightarrow> pystr \<Rightarrow> pyval" where
  "call_gemini generate_content dumps prompt model_name =
     (case call_gemini_try generate_content dumps prompt model_name of
        Inr v \<Rightarrow> v
      | Inl e \<Rightarrow> PStr (dumps_error (kind e @ lit '': '' @ message e)))"

section \<open>Properties of the decoder\<close>

text \<open>Every successful scan consumes at least one character.\<close>

lemma skip_ws_length: "length (skip_ws cs) \<le> length cs"
  by (simp add: skip_ws_def length_dropWhile_le)

lemma cons_char_Some: "cons_char c r = Some (s, rest) \<Longrightarrow> \<exists>s'. r = Some (s', rest)"
  by (auto simp: cons_char_def split: option.splits)

lemma scanstring_consumes: "scanstring cs = Some (s, rest) \<Longrightarrow> length rest < length cs"
proof (induction cs arbitrary: s rest rule: length_induct)
  case (1 cs)
  have step: "length rest < length ys"
    if "scanstring ys = Some (s', rest)" "length ys < length cs" for ys s'
    using 1(1) that by blast
  show ?case
  proof (cases cs)
    case Nil
    with 1(2) show ?thesis by simp
  next
    case (Cons c t)
    with 1(2) show ?thesis
      by (fastforce split: if_splits list.splits option.splits dest!: cons_char_Some
               dest: step)
  qed
qed

lemma int_part_nonempty: "int_part cs \<noteq> [] \<Longrightarrow> cs \<noteq> []"
  by (auto simp: int_part_def)

lemma match_number_consumes:
  assumes "match_number cs = Some (v, rest)"
  shows "length rest < length cs"
proof -
  let ?r0 = "drop (length (sign_part cs)) cs"
  from assms have ne: "int_part ?r0 \<noteq> []"
    unfolding match_number_def Let_def by (auto split: if_splits)
  then have pos: "0 < length (int_part ?r0)" by simp
  from ne have "?r0 \<noteq> []" by (rule int_part_nonempty)
  then have r0: "0 < length ?r0" by simp
  have le: "length rest \<le> length ?r0 - length (int_part ?r0)"
    using assms unfolding match_number_def Let_def by (auto split: if_splits)
  have "length ?r0 - length (int_part ?r0) < length ?r0"
    using pos r0 by (rule diff_less)
  also have "length ?r0 \<le> length cs" by simp
  finally show ?thesis using le by linarith
qed

lemma skip_ws_Cons_length: "skip_ws xs = d # r \<Longrightarrow> length r < length xs"
  using skip_ws_length [of xs] by simp

lemma lt_skip_ws: "n < length (skip_ws xs) \<Longrightarrow> n < length xs"
  using skip_ws_length [of xs] by simp

lemma scan_consumes:
  "scan_once n cs = Parsed v rest \<Longrightarrow> length rest < length cs"
  "parse_array n cs acc = Parsed v rest \<Longrightarrow> length rest < length cs"
  "parse_object n cs kvs = Parsed v rest \<Longrightarrow> length rest < length cs"
proof (induction n cs and n cs acc and n cs kvs arbitrary: v rest and v rest and v rest rule: scan_once_parse_array_parse_object.induct)
  case (1 cs)
  then show ?case by simp
next
  case (2 n)
  then show ?case by simp
next
  case (3 n c cs)
  show ?case
    using "3.prems" "3.IH" skip_ws_length[of cs]
    apply (auto split: if_splits option.splits list.splits
             dest!: scanstring_consumes match_number_consumes)
     apply force+
    done
next
  case (4 cs acc)
  then show ?case by simp
next
  case (5 n cs acc)
  show ?case
    using "5.prems" "5.IH"
    apply (auto split: if_splits scan.splits list.splits dest!: skip_ws_Cons_length)
    apply (fastforce dest: lt_skip_ws)+
    done
next
  case (6 cs acc)
  then show ?case by simp
next
  case (7 n cs acc)
  show ?case
    using "7.prems" "7.IH"
    apply (auto split: if_splits scan.splits list.splits option.splits dest!: skip_ws_Cons_length scanstring_consumes)
    apply (fastforce dest: lt_skip_ws)+
    done
qed


text \<open>The recursion budget of \<open>json_loads\<close> is never used up.\<close>

lemma scan_budget_all:
  "(\<forall>cs. 2 * length cs < n \<longrightarrow> scan_once n cs \<noteq> Exhausted) \<and>
   (\<forall>cs acc. 2 * length cs + 1 < n \<longrightarrow> parse_array n cs acc \<noteq> Exhausted) \<and>
   (\<forall>cs kvs. 2 * length cs + 1 < n \<longrightarrow> parse_object n cs kvs \<noteq> Exhausted)"
proof (induction n)
  case 0
  show ?case by simp
next
  case (Suc n)
  then have IH1: "\<And>cs. 2 * length cs < n \<Longrightarrow> scan_once n cs \<noteq> Exhausted"
    and IH2: "\<And>cs acc. 2 * length cs + 1 < n \<Longrightarrow> parse_array n cs acc \<noteq> Exhausted"
    and IH3: "\<And>cs kvs. 2 * length cs + 1 < n \<Longrightarrow> parse_object n cs kvs \<noteq> Exhausted"
    by blast+
  have one: "scan_once (Suc n) cs \<noteq> Exhausted" if b: "2 * length cs < Suc n" for cs
  proof (cases cs)
    case Nil
    then show ?thesis by simp
  next
    case (Cons c t)
    have len: "length (skip_ws t) \<le> length t" by (rule skip_ws_length)
    have A: "parse_array n xs a \<noteq> Exhausted" if "length xs \<le> length t" for xs a
      using that b Cons by (intro IH2) simp
    have O: "parse_object n xs a \<noteq> Exhausted" if "length xs \<le> length t" for xs a
      using that b Cons by (intro IH3) simp
    have A1: "parse_array n (skip_ws t) [] \<noteq> Exhausted" using len by (rule A)
    have O1: "parse_object n (skip_ws t) [] \<noteq> Exhausted" using len by (rule O)
    show ?thesis
    proof (cases "skip_ws t")
      case Nil
      with A1 O1 show ?thesis unfolding Cons
        by (simp split: option.split)
    next
      case (Cons d r)
      with A1 O1 show ?thesis unfolding \<open>cs = c # t\<close>
        by (simp split: option.split)
    qed
  qed
  have two: "parse_array (Suc n) cs acc \<noteq> Exhausted" if b: "2 * length cs + 1 < Suc n" for cs acc
  proof (cases "scan_once n cs")
    case (Parsed v rest)
    then have lr: "length rest < length cs" by (rule scan_consumes(1))
    show ?thesis
    proof (cases "skip_ws rest")
      case Nil
      then show ?thesis using Parsed by simp
    next
      case (Cons d rest')
      then have "length rest' < length rest" by (rule skip_ws_Cons_length)
      with lr b have "2 * length (skip_ws rest') + 1 < n"
        using skip_ws_length [of rest'] by linarith
      then have "parse_array n (skip_ws rest') (v # acc) \<noteq> Exhausted" by (rule IH2)
      then show ?thesis using Parsed Cons by simp
    qed
  next
    case Invalid
    then show ?thesis by simp
  next
    case Exhausted
    moreover have "scan_once n cs \<noteq> Exhausted" using b by (intro IH1) simp
    ultimately show ?thesis by simp
  qed
  have three: "parse_object (Suc n) cs kvs \<noteq> Exhausted" if b: "2 * length cs + 1 < Suc n" for cs kvs
  proof (cases cs)
    case Nil
    then show ?thesis by simp
  next
    case (Cons q cs1)
    show ?thesis
    proof (cases "q = 34")
      case False
      then show ?thesis using Cons by simp
    next
      case q: True
      show ?thesis
      proof (cases "scanstring cs1")
        case None
        then show ?thesis using Cons q by simp
      next
        case (Some p)
        obtain key cs2 where p: "p = (key, cs2)" by (cases p)
        have l2: "length cs2 < length cs1" using Some p scanstring_consumes by blast
        show ?thesis
        proof (cases "skip_ws cs2")
          case Nil
          then show ?thesis using Cons q Some p by simp
        next
          case c3: (Cons colon cs3)
          then have l3: "length cs3 < length cs2" by (rule skip_ws_Cons_length)
          show ?thesis
          proof (cases "colon = 58")
            case False
            then show ?thesis using Cons q Some p c3 by simp
          next
            case col: True
            have l4: "length (skip_ws cs3) \<le> length cs3" by (rule skip_ws_length)
            show ?thesis
            proof (cases "scan_once n (skip_ws cs3)")
              case (Parsed v rest)
              then have lr: "length rest < length (skip_ws cs3)" by (rule scan_consumes(1))
              show ?thesis
              proof (cases "skip_ws rest")
                case Nil
                then show ?thesis using Cons q Some p c3 col Parsed by simp
              next
                case r: (Cons d rest')
                then have "length rest' < length rest" by (rule skip_ws_Cons_length)
                with lr l4 l3 l2 b Cons have "2 * length (skip_ws rest') + 1 < n"
                  using skip_ws_length [of rest'] by simp
                then have "parse_object n (skip_ws rest') (dict_set key v kvs) \<noteq> Exhausted"
                  by (rule IH3)
                then show ?thesis using Cons q Some p c3 col Parsed r by simp
              qed
            next
              case Invalid
              then show ?thesis using Cons q Some p c3 col by simp
            next
              case Exhausted
              moreover have "scan_once n (skip_ws cs3) \<noteq> Exhausted"
                using b Cons l2 l3 l4 by (intro IH1) simp
              ultimately show ?thesis by simp
            qed
          qed
        qed
      qed
    qed
  qed
  from one two three show ?case by blast
qed

lemma json_loads_budget: "scan_once (2 * length s + 2) (skip_ws s) \<noteq> Exhausted"
proof -
  have "2 * length (skip_ws s) < 2 * length s + 2"
    using skip_ws_length [of s] by simp
  then show ?thesis using scan_budget_all by blast
qed

text \<open>A text that starts with an opening brace decodes to an object or not at all.\<close>

lemma parse_object_is_object:
  "parse_object n cs kvs = Parsed v rest \<Longrightarrow> \<exists>m. v = JObject m"
proof (induction n arbitrary: cs kvs)
  case 0
  then show ?case by simp
next
  case (Suc n)
  from Suc.prems show ?case
    by (auto split: if_splits scan.splits list.splits option.splits dest: Suc.IH)
qed

lemma scan_once_brace:
  "scan_once n (123 # cs) = Parsed v rest \<Longrightarrow> \<exists>m. v = JObject m"
  by (cases n) (auto split: if_splits list.splits dest: parse_object_is_object)

lemma json_loads_brace:
  assumes "json_loads (123 # cs) = Some v"
  shows "\<exists>m. v = JObject m"
proof -
  have sk: "skip_ws (123 # cs) = 123 # cs" by (simp add: skip_ws_def is_json_ws_def)
  from assms obtain rest where "scan_once (2 * length (123 # cs) + 2) (123 # cs) = Parsed v rest"
    unfolding json_loads_def sk by (auto split: scan.splits if_splits)
  then show ?thesis by (rule scan_once_brace)
qed

lemma json_loads_Nil: "json_loads [] = None"
  by (simp add: json_loads_def skip_ws_def)

text \<open>Searching for a character.\<close>

lemma str_find_ge: "- 1 \<le> str_find c s"
  by (induction s) (auto simp: Let_def)

lemma str_find_notin: "c \<notin> set s \<Longrightarrow> str_find c s = - 1"
  by (induction s) (auto simp: Let_def)

lemma str_find_append: "c \<notin> set p \<Longrightarrow> str_find c (p @ c # t) = int (length p)"
  by (induction p) (auto simp: Let_def)

lemma str_find_nth:
  "str_find c s \<noteq> - 1 \<Longrightarrow> nat (str_find c s) < length s \<and> s ! nat (str_find c s) = c"
proof (induction s)
  case Nil
  then show ?case by simp
next
  case (Cons x xs)
  show ?case
  proof (cases "x = c")
    case True
    then show ?thesis by simp
  next
    case False
    with Cons.prems have ne: "str_find c xs \<noteq> - 1" by (auto simp: Let_def split: if_splits)
    with str_find_ge [of c xs] have "0 \<le> str_find c xs" by linarith
    with Cons.IH [OF ne] False ne show ?thesis
      by (simp add: Let_def nat_add_distrib)
  qed
qed

lemma str_rfind_append:
  "c \<notin> set q \<Longrightarrow> str_rfind c (p @ c # q) = int (length p)"
  using str_find_append [of c "rev q" "rev p"] by (simp add: str_rfind_def Let_def)

text \<open>Trimming and slicing a text that holds a brace-delimited body.\<close>

lemma dropWhile_before:
  "\<not> P a \<Longrightarrow> dropWhile P (pre @ a # rest) = dropWhile P pre @ a # rest"
  by (induction pre) auto

lemma strip_sandwich:
  assumes "\<not> py_isspace a" "\<not> py_isspace b"
  shows "strip (pre @ (a # mid @ [b]) @ post) =
         dropWhile py_isspace pre @ (a # mid @ [b]) @ rev (dropWhile py_isspace (rev post))"
proof -
  have 1: "dropWhile py_isspace (pre @ (a # mid @ [b]) @ post) =
           dropWhile py_isspace pre @ a # (mid @ [b]) @ post"
    using assms(1) dropWhile_before [of py_isspace a pre "(mid @ [b]) @ post"] by simp
  have 2: "rev (dropWhile py_isspace pre @ a # (mid @ [b]) @ post) =
           rev post @ b # (rev mid @ a # rev (dropWhile py_isspace pre))"
    by simp
  have 3: "dropWhile py_isspace (rev post @ b # (rev mid @ a # rev (dropWhile py_isspace pre))) =
           dropWhile py_isspace (rev post) @ b # (rev mid @ a # rev (dropWhile py_isspace pre))"
    using assms(2) by (rule dropWhile_before [where P = py_isspace])
  show ?thesis
    unfolding strip_def 1 2 3 by simp
qed

lemma slice_middle:
  "slice (p @ m @ q) (int (length p)) (int (length p) + int (length m)) = m"
  by (simp add: slice_def nat_add_distrib)

lemma set_dropWhile_subset: "set (dropWhile P xs) \<subseteq> set xs"
  by (induction xs) auto

lemma candidate_head:
  assumes "str_find 123 s \<noteq> - 1" and "str_find 123 s \<le> j"
  shows "\<exists>t. slice s (str_find 123 s) (j + 1) = 123 # t"
proof -
  let ?i = "str_find 123 s"
  from str_find_nth [OF assms(1)] have lt: "nat ?i < length s" and at: "s ! nat ?i = 123"
    by simp_all
  from str_find_ge [of 123 s] assms(1) have i0: "0 \<le> ?i" by linarith
  have d: "drop (nat ?i) s = 123 # drop (Suc (nat ?i)) s"
    using lt at by (metis Cons_nth_drop_Suc)
  from i0 assms(2) have "nat (j + 1) - nat ?i = Suc (nat j - nat ?i)" by linarith
  then show ?thesis by (simp add: slice_def d)
qed

lemma extract_fallback_object:
  assumes "json_loads (strip s) = None" and "extract_json_from_text (Some s) = Some v"
  shows "\<exists>m. v = JObject m"
proof -
  let ?s = "strip s"
  let ?i = "str_find 123 ?s" and ?j = "str_rfind 125 ?s"
  let ?c = "slice ?s ?i (?j + 1)"
  from assms have cond: "?i \<noteq> - 1" "?i \<le> ?j"
    and res: "json_loads ?c = Some v \<or> json_loads (replace1 39 34 (replace1 10 32 ?c)) = Some v"
    by (auto simp: extract_json_from_text_def Let_def split: if_splits option.splits)
  from candidate_head [OF cond] obtain t where c: "?c = 123 # t" by blast
  have "replace1 39 34 (replace1 10 32 (123 # t)) = 123 # replace1 39 34 (replace1 10 32 t)"
    by (simp add: replace1_def)
  with res c show ?thesis by (auto dest: json_loads_brace)
qed

section \<open>Properties of \<^verbatim>\<open>extract_json_from_text\<close>\<close>

lemma extract_json_eval:
  assumes "raw \<noteq> []" and "strip raw = s" and "json_loads s = r1"
    and "str_find 123 s = i" and "str_rfind 125 s = j" and "slice s i (j + 1) = cand"
    and "json_loads cand = r2" and "json_loads (replace1 39 34 (replace1 10 32 cand)) = r3"
  shows "extract_json_from_text (Some raw) =
         (case r1 of
            Some v \<Rightarrow> Some v
          | None \<Rightarrow>
              if i \<noteq> - 1 \<and> j \<noteq> - 1 \<and> i \<le> j
              then (case r2 of Some v \<Rightarrow> Some v | None \<Rightarrow> r3)
              else None)"
  using assms by (auto simp: extract_json_from_text_def Let_def split: option.splits)

lemma strip_unchanged:
  "s \<noteq> [] \<Longrightarrow> \<not> py_isspace (hd s) \<Longrightarrow> \<not> py_isspace (last s) \<Longrightarrow> strip s = s"
proof -
  assume ne: "s \<noteq> []" and h: "\<not> py_isspace (hd s)" and l: "\<not> py_isspace (last s)"
  from ne h have 1: "dropWhile py_isspace s = s" by (cases s) auto
  from ne l have 2: "dropWhile py_isspace (rev s) = rev s"
    by (cases "rev s") (auto simp: last_rev [symmetric] simp del: last_rev dest: arg_cong [where f = hd])
  show "strip s = s" by (simp add: strip_def 1 2)
qed

text \<open>
  Claim C1. \<^verbatim>\<open>extract_json_from_text\<close> is a total function whose result is a decoded value
  or \<open>None\<close>, but the value need not be a JSON object: the first tier returns whatever
  \<^verbatim>\<open>json.loads\<close> gives for the trimmed text, and for the text \<^verbatim>\<open>42\<close> that is the integer 42.
\<close>

theorem extract_json_returns_non_object:
  "extract_json_from_text (Some (lit ''42'')) = Some (JInt 42)"
proof -
  have 1: "lit ''42'' \<noteq> []" by (simp add: lit_def)
  have 2: "strip (lit ''42'') = lit ''42''"
    by (rule strip_unchanged) (simp_all add: lit_def py_isspace_def)
  have 3: "json_loads (lit ''42'') = Some (JInt 42)" by code_simp
  show ?thesis
    using extract_json_eval [OF 1 2 3 refl refl refl refl refl] by simp
qed

text \<open>
  Claim C2. When the trimmed text decodes to a JSON object, the result is that decoding
  (the first tier succeeds and is returned first).
\<close>

theorem extract_json_tier1:
  assumes "json_loads (strip raw) = Some (JObject kvs)"
  shows "extract_json_from_text (Some raw) = json_loads (strip raw)"
proof -
  have "raw \<noteq> []"
  proof
    assume "raw = []"
    then have "json_loads (strip raw) = None" by (simp add: strip_def json_loads_Nil)
    with assms show False by simp
  qed
  with assms show ?thesis by (simp add: extract_json_from_text_def)
qed

theorem extract_json_tier1_witness:
  "json_loads (strip (lit ''  {\"case_type\": \"cybercrime\", \"severity\": 6}  ''))
     = Some (JObject [(lit ''case_type'', JString (lit ''cybercrime'')), (lit ''severity'', JInt 6)])
   \<and> extract_json_from_text (Some (lit ''  {\"case_type\": \"cybercrime\", \"severity\": 6}  ''))
     = json_loads (strip (lit ''  {\"case_type\": \"cybercrime\", \"severity\": 6}  ''))"
proof -
  have s: "strip (lit ''  {\"case_type\": \"cybercrime\", \"severity\": 6}  '')
           = lit ''{\"case_type\": \"cybercrime\", \"severity\": 6}''"
    by (simp add: strip_def lit_def py_isspace_def)
  have "json_loads (lit ''{\"case_type\": \"cybercrime\", \"severity\": 6}'')
     = Some (JObject [(lit ''case_type'', JString (lit ''cybercrime'')), (lit ''severity'', JInt 6)])"
    by code_simp
  then have h: "json_loads (strip (lit ''  {\"case_type\": \"cybercrime\", \"severity\": 6}  ''))
     = Some (JObject [(lit ''case_type'', JString (lit ''cybercrime'')), (lit ''severity'', JInt 6)])"
    by (simp only: s)
  from h extract_json_tier1 [OF h] show ?thesis by (rule conjI)
qed

text \<open>
  Claim C3, as stated, fails when the surrounding noise itself holds a brace: the second
  tier slices from the first opening brace to the last closing brace of the whole text,
  which then is not the inner object. For the text \<^verbatim>\<open>{x} {"a": 1} ok\<close> all three tiers
  fail although the inner object \<^verbatim>\<open>{"a": 1}\<close> decodes.
\<close>

theorem extract_json_tier2_counterexample:
  "json_loads (strip (lit ''{x} '' @ lit ''{\"a\": 1}'' @ lit '' ok'')) = None
   \<and> json_loads (lit ''{\"a\": 1}'') = Some (JObject [(lit ''a'', JInt 1)])
   \<and> extract_json_from_text (Some (lit ''{x} '' @ lit ''{\"a\": 1}'' @ lit '' ok''))
       \<noteq> json_loads (lit ''{\"a\": 1}'')"
proof -
  let ?raw = "lit ''{x} '' @ lit ''{\"a\": 1}'' @ lit '' ok''"
  have 1: "?raw \<noteq> []" by (simp add: lit_def)
  have 2: "strip ?raw = lit ''{x} {\"a\": 1} ok''"
    by (simp add: strip_def lit_def py_isspace_def)
  have 3: "json_loads (lit ''{x} {\"a\": 1} ok'') = None" by code_simp
  have 4: "str_find 123 (lit ''{x} {\"a\": 1} ok'') = 0" by code_simp
  have 5: "str_rfind 125 (lit ''{x} {\"a\": 1} ok'') = 11" by code_simp
  have 6: "slice (lit ''{x} {\"a\": 1} ok'') 0 (11 + 1) = lit ''{x} {\"a\": 1}''" by code_simp
  have 7: "json_loads (lit ''{x} {\"a\": 1}'') = None" by code_simp
  have 8: "json_loads (replace1 39 34 (replace1 10 32 (lit ''{x} {\"a\": 1}''))) = None"
    by code_simp
  have 9: "json_loads (lit ''{\"a\": 1}'') = Some (JObject [(lit ''a'', JInt 1)])" by code_simp
  have "extract_json_from_text (Some ?raw) = None"
    using extract_json_eval [OF 1 2 3 4 5 6 7 8] by simp
  with 2 3 9 show ?thesis by simp
qed

text \<open>
  Claim C3, amended. When the noise before the object holds no opening brace and the noise
  after it holds no closing brace, and the first tier fails, the result is the decoding of
  the inner object (the second tier).
\<close>

theorem extract_json_tier2:
  assumes "123 \<notin> set pre" and "125 \<notin> set post"
    and "json_loads (strip (pre @ (123 # mid @ [125]) @ post)) = None"
    and "json_loads (123 # mid @ [125]) = Some v"
  shows "extract_json_from_text (Some (pre @ (123 # mid @ [125]) @ post)) = Some v"
proof -
  let ?p = "dropWhile py_isspace pre" and ?q = "rev (dropWhile py_isspace (rev post))"
  let ?inner = "123 # mid @ [125]"
  let ?raw = "pre @ ?inner @ post"
  have s: "strip ?raw = ?p @ ?inner @ ?q"
    by (rule strip_sandwich) (simp_all add: py_isspace_def)
  have p: "123 \<notin> set ?p" using assms(1) set_dropWhile_subset [of py_isspace pre] by blast
  have q: "125 \<notin> set ?q" using assms(2) set_dropWhile_subset [of py_isspace "rev post"] by auto
  have i: "str_find 123 (?p @ ?inner @ ?q) = int (length ?p)"
    using str_find_append [OF p, of "(mid @ [125]) @ ?q"] by simp
  have j: "str_rfind 125 (?p @ ?inner @ ?q) = int (length ?p) + int (length mid) + 1"
    using str_rfind_append [OF q, of "?p @ 123 # mid"] by simp
  have c: "slice (?p @ ?inner @ ?q) (int (length ?p)) (int (length ?p) + int (length mid) + 1 + 1)
             = ?inner"
    using slice_middle [of ?p ?inner ?q] by (simp add: algebra_simps)
  have ne: "?raw \<noteq> []" by simp
  have t1: "json_loads (?p @ ?inner @ ?q) = None" using assms(3) unfolding s .
  have "extract_json_from_text (Some ?raw) =
        (case (None :: json option) of
            Some v \<Rightarrow> Some v
          | None \<Rightarrow>
              if int (length ?p) \<noteq> - 1 \<and> int (length ?p) + int (length mid) + 1 \<noteq> - 1
                 \<and> int (length ?p) \<le> int (length ?p) + int (length mid) + 1
              then (case Some v of Some v \<Rightarrow> Some v | None \<Rightarrow> json_loads (replace1 39 34 (replace1 10 32 ?inner)))
              else None)"
    by (rule extract_json_eval [OF ne s t1 i j c assms(4) refl])
  then show ?thesis by simp
qed

theorem extract_json_tier2_witness:
  "extract_json_from_text
     (Some (lit ''I think this helps: '' @ (123 # lit ''\"case_type\": \"consumer\", \"severity\": 3'' @ [125])
            @ lit '' Thanks!''))
   = Some (JObject [(lit ''case_type'', JString (lit ''consumer'')), (lit ''severity'', JInt 3)])"
proof -
  have 1: "123 \<notin> set (lit ''I think this helps: '')" by (simp add: lit_def)
  have 2: "125 \<notin> set (lit '' Thanks!'')" by (simp add: lit_def)
  have s: "strip (lit ''I think this helps: '' @ (123 # lit ''\"case_type\": \"consumer\", \"severity\": 3'' @ [125])
            @ lit '' Thanks!'') =
           lit ''I think this helps: {\"case_type\": \"consumer\", \"severity\": 3} Thanks!''"
    by (simp add: strip_def lit_def py_isspace_def)
  have "json_loads (lit ''I think this helps: {\"case_type\": \"consumer\", \"severity\": 3} Thanks!'') = None"
    by code_simp
  then have 3: "json_loads (strip (lit ''I think this helps: '' @ (123 # lit ''\"case_type\": \"consumer\", \"severity\": 3'' @ [125])
            @ lit '' Thanks!'')) = None" by (simp only: s)
  have 4: "json_loads (123 # lit ''\"case_type\": \"consumer\", \"severity\": 3'' @ [125])
     = Some (JObject [(lit ''case_type'', JString (lit ''consumer'')), (lit ''severity'', JInt 3)])"
    by code_simp
  show ?thesis by (rule extract_json_tier2 [OF 1 2 3 4])
qed

text \<open>
  Claim C4. When the first tier fails and the brace-delimited substring does not decode,
  the result is the decoding of that substring with every newline replaced by a space
  and every apostrophe by a double quote, and \<open>None\<close> when this does not decode either.
\<close>

theorem extract_json_tier3:
  assumes "raw \<noteq> []" and "s = strip raw" and "json_loads s = None"
    and "i = str_find 123 s" and "j = str_rfind 125 s"
    and "i \<noteq> - 1" and "j \<noteq> - 1" and "i \<le> j"
    and "cand = slice s i (j + 1)" and "json_loads cand = None"
  shows "extract_json_from_text (Some raw) =
         json_loads (map (\<lambda>c. if c = 10 then 32 else if c = 39 then 34 else c) cand)"
proof -
  have "replace1 39 34 (replace1 10 32 cand) =
        map (\<lambda>c. if c = 10 then 32 else if c = 39 then 34 else c) cand"
    by (simp add: replace1_def)
  with assms show ?thesis
    by (simp add: extract_json_from_text_def Let_def)
qed

theorem extract_json_tier3_witness:
  "extract_json_from_text (Some (lit ''{'case_type': 'accident',\<newline>'severity': 4}''))
   = json_loads (map (\<lambda>c. if c = 10 then 32 else if c = 39 then 34 else c)
                     (lit ''{'case_type': 'accident',\<newline>'severity': 4}''))
   \<and> json_loads (map (\<lambda>c. if c = 10 then 32 else if c = 39 then 34 else c)
                     (lit ''{'case_type': 'accident',\<newline>'severity': 4}''))
   = Some (JObject [(lit ''case_type'', JString (lit ''accident'')), (lit ''severity'', JInt 4)])"
proof -
  let ?raw = "lit ''{'case_type': 'accident',\<newline>'severity': 4}''"
  have 1: "?raw \<noteq> []" by (simp add: lit_def)
  have 2: "?raw = strip ?raw"
    by (rule strip_unchanged [symmetric]) (simp_all add: lit_def py_isspace_def)
  have 3: "json_loads ?raw = None" by code_simp
  have 4: "(0::int) = str_find 123 ?raw" by code_simp
  have 5: "(39::int) = str_rfind 125 ?raw" by code_simp
  have 9: "?raw = slice ?raw 0 (39 + 1)" by code_simp
  have a: "extract_json_from_text (Some ?raw)
   = json_loads (map (\<lambda>c. if c = 10 then 32 else if c = 39 then 34 else c) ?raw)"
    by (rule extract_json_tier3 [OF 1 2 3 4 5 _ _ _ 9 3]) simp_all
  have b: "json_loads (map (\<lambda>c. if c = 10 then 32 else if c = 39 then 34 else c) ?raw)
   = Some (JObject [(lit ''case_type'', JString (lit ''accident'')), (lit ''severity'', JInt 4)])"
    by code_simp
  from a b show ?thesis by (rule conjI)
qed

section \<open>Properties of the duplicate removal\<close>

lemma dict_get_set: "dict_get (dict_set k v m) k' = (if k' = k then Some v else dict_get m k')"
  by (induction m) auto

lemma dict_set_keys: "set (map fst (dict_set k v m)) = insert k (set (map fst m))"
  by (induction m) auto

lemma dict_set_distinct: "distinct (map fst m) \<Longrightarrow> distinct (map fst (dict_set k v m))"
  by (induction m) (auto simp: dict_set_keys simp flip: set_map)

lemma dict_get_Some_iff:
  "distinct (map fst m) \<Longrightarrow> dict_get m k = Some v \<longleftrightarrow> (k, v) \<in> set m"
  by (induction m) (auto simp: rev_image_eqI)

lemma dict_set_values: "snd ` set (dict_set k v m) \<subseteq> insert v (snd ` set m)"
  by (induction m) auto

lemma dict_set_entries: "set (dict_set k v m) \<subseteq> insert (k, v) (set m)"
  by (induction m) auto

lemma dedupe_append: "dedupe (xs @ ys) uniq = dedupe ys (dedupe xs uniq)"
  by (induction xs arbitrary: uniq) simp_all

lemma store_keyed: "keyed uniq \<Longrightarrow> keyed (store r uniq)"
  unfolding keyed_def store_def
  using dict_set_entries [of "key_of r" r uniq]
  by (auto simp: dict_set_distinct split: option.splits)

lemma store_covers:
  assumes "covers seen uniq"
  shows "covers (insert r seen) (store r uniq)"
proof -
  have vals: "snd ` set (store r uniq) \<subseteq> insert r seen"
    using assms dict_set_values [of "key_of r" r uniq]
    by (auto simp: covers_def store_def split: option.splits)
  have "\<exists>h. dict_get (store r uniq) (key_of x) = Some h \<and> distance_km h \<le> distance_km x"
    if "x \<in> insert r seen" for x
  proof (cases "dict_get uniq (key_of r)")
    case None
    then have st: "store r uniq = dict_set (key_of r) r uniq" by (simp add: store_def)
    show ?thesis
    proof (cases "key_of x = key_of r")
      case True
      with that None assms have "x = r" by (auto simp: covers_def)
      then show ?thesis by (simp add: st dict_get_set)
    next
      case False
      with that assms show ?thesis by (auto simp: st dict_get_set covers_def)
    qed
  next
    case (Some old)
    show ?thesis
    proof (cases "distance_km old > distance_km r")
      case True
      then have st: "store r uniq = dict_set (key_of r) r uniq" by (simp add: store_def Some)
      show ?thesis
      proof (cases "key_of x = key_of r")
        case k: True
        show ?thesis
        proof (cases "x = r")
          case True
          then show ?thesis by (simp add: st dict_get_set)
        next
          case False
          with that have "x \<in> seen" by simp
          with assms obtain h where "dict_get uniq (key_of x) = Some h" "distance_km h \<le> distance_km x"
            by (auto simp: covers_def)
          with k Some True have "distance_km r \<le> distance_km x" by simp
          then show ?thesis by (simp add: st dict_get_set k)
        qed
      next
        case False
        with that assms show ?thesis by (auto simp: st dict_get_set covers_def)
      qed
    next
      case False
      then have st: "store r uniq = uniq" by (simp add: store_def Some)
      show ?thesis
      proof (cases "x = r")
        case True
        with Some False show ?thesis by (simp add: st)
      next
        case False
        with that assms show ?thesis by (auto simp: st covers_def)
      qed
    qed
  qed
  with vals show ?thesis by (simp add: covers_def)
qed

lemma dedupe_keyed: "keyed uniq \<Longrightarrow> keyed (dedupe rs uniq)"
  by (induction rs arbitrary: uniq) (simp_all add: store_keyed)

lemma dedupe_covers: "covers seen uniq \<Longrightarrow> covers (seen \<union> set rs) (dedupe rs uniq)"
proof (induction rs arbitrary: seen uniq)
  case Nil
  then show ?case by simp
next
  case (Cons r rs)
  from Cons.IH [OF store_covers [OF Cons.prems, of r]]
  show ?case by (simp add:)
qed

lemma dedupe_keyed_Nil: "keyed (dedupe hits [])"
  by (rule dedupe_keyed) (simp add: keyed_def)

lemma dedupe_covers_Nil: "covers (set hits) (dedupe hits [])"
  using dedupe_covers [of "{}" "[]" hits] by (simp add: covers_def)

lemma round_half_even_near:
  assumes "\<bar>x - of_int n\<bar> < 1 / 2"
  shows "round_half_even x = n"
proof -
  from assms have lo: "- (x - of_int n) < 1 / 2" and hi: "x - of_int n < 1 / 2"
    by (simp_all only: abs_less_iff)
  then have "of_int (n - 1) \<le> x" and "x < of_int (n + 1)"
    by simp_all
  then have "n - 1 \<le> \<lfloor>x\<rfloor>" and "\<lfloor>x\<rfloor> < n + 1"
    by (simp_all only: le_floor_iff floor_less_iff)
  then have "\<lfloor>x\<rfloor> = n \<or> \<lfloor>x\<rfloor> = n - 1" by linarith
  then show ?thesis
  proof
    assume f: "\<lfloor>x\<rfloor> = n"
    with hi show ?thesis by (simp add: round_half_even_def Let_def)
  next
    assume f: "\<lfloor>x\<rfloor> = n - 1"
    from lo have "1 / 2 < x - of_int (n - 1)" by simp
    with f show ?thesis by (simp add: round_half_even_def Let_def)
  qed
qed

lemma py_round_near:
  "\<bar>x * 10 ^ n - of_int m\<bar> < 1 / 2 \<Longrightarrow> py_round x n = of_int m / 10 ^ n"
  by (simp add: py_round_def round_half_even_near)

lemma dedupe_values_distinct: "distinct (map key_of (map snd (dedupe hits [])))"
proof -
  have k: "keyed (dedupe hits [])" by (rule dedupe_keyed_Nil)
  then have "map (key_of \<circ> snd) (dedupe hits []) = map fst (dedupe hits [])"
    by (auto simp: keyed_def)
  moreover from k have "distinct (map fst (dedupe hits []))" by (simp add: keyed_def)
  ultimately have "distinct (map (key_of \<circ> snd) (dedupe hits []))" by (simp only:)
  then show ?thesis by simp
qed

lemma dedupe_values_subset: "set (map snd (dedupe hits [])) \<subseteq> set hits"
  using dedupe_covers_Nil [of hits] by (simp add: covers_def)

lemma dedupe_values_minimal:
  assumes "e \<in> set (map snd (dedupe hits []))" and "r \<in> set hits" and "key_of r = key_of e"
  shows "distance_km e \<le> distance_km r"
proof -
  have k: "keyed (dedupe hits [])" by (rule dedupe_keyed_Nil)
  from assms(1) obtain q where q: "(q, e) \<in> set (dedupe hits [])" by auto
  with k have "q = key_of e" by (auto simp: keyed_def)
  with q k have "dict_get (dedupe hits []) (key_of e) = Some e"
    by (simp add: dict_get_Some_iff keyed_def)
  moreover from dedupe_covers_Nil [of hits] assms(2) obtain h
    where "dict_get (dedupe hits []) (key_of r) = Some h" "distance_km h \<le> distance_km r"
    by (auto simp: covers_def)
  ultimately show ?thesis using assms(3) by simp
qed

lemma dedupe_values_present:
  assumes "r \<in> set hits"
  shows "\<exists>e \<in> set (map snd (dedupe hits [])). key_of e = key_of r \<and> distance_km e \<le> distance_km r"
proof -
  have k: "keyed (dedupe hits [])" by (rule dedupe_keyed_Nil)
  from dedupe_covers_Nil [of hits] assms obtain h
    where h: "dict_get (dedupe hits []) (key_of r) = Some h" "distance_km h \<le> distance_km r"
    by (auto simp: covers_def)
  from h(1) k have in_d: "(key_of r, h) \<in> set (dedupe hits [])"
    by (simp add: dict_get_Some_iff keyed_def)
  with k have "key_of h = key_of r" by (auto simp: keyed_def)
  moreover from in_d have "h \<in> set (map snd (dedupe hits []))" by force
  ultimately show ?thesis using h(2) by blast
qed

lemma set_take_limit: "set (take_limit limit xs) \<subseteq> set xs"
  by (auto simp: take_limit_def dest: in_set_takeD)

lemma take_limit_take: "\<exists>k. take_limit limit xs = take k xs"
  by (auto simp: take_limit_def)

lemma dedupe_sort_subset: "set (dedupe_sort hits limit) \<subseteq> set (map snd (dedupe hits []))"
  using set_take_limit [of limit "sort_key distance_km (map snd (dedupe hits []))"]
  by (simp add: dedupe_sort_def)

lemma dedupe_values_set:
  assumes "inj_on distance_km (set hits)"
  shows "set (map snd (dedupe hits [])) =
         {r \<in> set hits. \<forall>r' \<in> set hits. key_of r' = key_of r \<longrightarrow> distance_km r \<le> distance_km r'}"
proof (intro equalityI subsetI)
  fix e assume "e \<in> set (map snd (dedupe hits []))"
  then show "e \<in> {r \<in> set hits. \<forall>r' \<in> set hits. key_of r' = key_of r \<longrightarrow> distance_km r \<le> distance_km r'}"
    using dedupe_values_subset [of hits] dedupe_values_minimal [of e hits] by blast
next
  fix r assume "r \<in> {r \<in> set hits. \<forall>r' \<in> set hits. key_of r' = key_of r \<longrightarrow> distance_km r \<le> distance_km r'}"
  then have r: "r \<in> set hits"
    and m: "\<And>r'. r' \<in> set hits \<Longrightarrow> key_of r' = key_of r \<Longrightarrow> distance_km r \<le> distance_km r'"
    by simp_all
  from dedupe_values_present [OF r] obtain e
    where e: "e \<in> set (map snd (dedupe hits []))" "key_of e = key_of r" "distance_km e \<le> distance_km r"
    by blast
  from e(1) dedupe_values_subset [of hits] have eh: "e \<in> set hits" by blast
  from m [OF eh e(2)] e(3) have "distance_km e = distance_km r" by simp
  with assms eh r have "e = r" by (simp add: inj_on_def)
  with e(1) show "r \<in> set (map snd (dedupe hits []))" by simp
qed

lemma sort_key_unique:
  assumes "distinct xs" and "distinct ys" and "set xs = set ys" and "inj_on f (set xs)"
  shows "sort_key f xs = sort_key f ys"
proof -
  have "sorted (map f (sort_key f xs))" and "sorted (map f (sort_key f ys))"
    by (rule sorted_sort_key)+
  moreover have "distinct (map f (sort_key f xs))" and "distinct (map f (sort_key f ys))"
    using assms by (simp_all add: distinct_map)
  moreover have "set (map f (sort_key f xs)) = set (map f (sort_key f ys))"
    using assms(3) by simp
  ultimately have "map f (sort_key f xs) = map f (sort_key f ys)"
    by (simp only: sorted_distinct_set_unique)
  moreover have "inj_on f (set (sort_key f xs) \<union> set (sort_key f ys))"
    using assms(3,4) by simp
  ultimately show ?thesis by (simp only: inj_on_map_eq_map)
qed

lemma dedupe_values_distinct': "distinct (map snd (dedupe hits []))"
  using dedupe_values_distinct [of hits] by (simp only: distinct_map)

lemma dedupe_sort_set_eq:
  assumes "set hits = set hits'" and "inj_on distance_km (set hits)"
  shows "dedupe_sort hits limit = dedupe_sort hits' limit"
proof -
  from assms have inj': "inj_on distance_km (set hits')" by simp
  have s: "set (map snd (dedupe hits [])) = set (map snd (dedupe hits' []))"
    by (simp only: dedupe_values_set [OF assms(2)] dedupe_values_set [OF inj'] assms(1))
  have "inj_on distance_km (set (map snd (dedupe hits [])))"
    using assms(2) dedupe_values_subset [of hits] by (rule inj_on_subset)
  with s have "sort_key distance_km (map snd (dedupe hits [])) =
               sort_key distance_km (map snd (dedupe hits' []))"
    by (intro sort_key_unique dedupe_values_distinct')
  then show ?thesis by (simp only: dedupe_sort_def)
qed

lemma store_first_seen:
  assumes "x \<in> set xs" and "key_of x = key_of r" and "distance_km x \<le> distance_km r"
  shows "store r (dedupe xs []) = dedupe xs []"
proof -
  from dedupe_covers_Nil [of xs] assms(1) obtain h
    where "dict_get (dedupe xs []) (key_of x) = Some h" "distance_km h \<le> distance_km x"
    by (auto simp: covers_def)
  with assms(2,3) show ?thesis by (simp add: store_def)
qed

lemma key_of_near:
  assumes "\<bar>lat r * 10 ^ 5 - of_int a\<bar> < 1 / 2" and "\<bar>lon r * 10 ^ 5 - of_int b\<bar> < 1 / 2"
  shows "key_of r = (of_int a / 10 ^ 5, of_int b / 10 ^ 5)"
  using assms by (simp add: key_of_def py_round_near)

section \<open>Properties of the result list of \<^verbatim>\<open>nearby_search\<close>\<close>

text \<open>
  Claim C5. In the list returned by the last stage of \<^verbatim>\<open>nearby_search\<close> no two entries
  have the same pair of coordinates rounded to five decimals; an entry is at most as far
  away as every hit of the input with the same rounded coordinates; the list is sorted
  by \<^verbatim>\<open>distance_km\<close>, non-decreasing; and it has at most \<^verbatim>\<open>limit\<close> entries. The limit is a
  number of results, so it is not negative: the application passes a value from 1 to 10.
\<close>

theorem dedupe_sort_invariants:
  "distinct (map key_of (dedupe_sort hits limit))
   \<and> (\<forall>e \<in> set (dedupe_sort hits limit). \<forall>r \<in> set hits.
          key_of r = key_of e \<longrightarrow> distance_km e \<le> distance_km r)
   \<and> sorted (map distance_km (dedupe_sort hits limit))
   \<and> (0 \<le> limit \<longrightarrow> int (length (dedupe_sort hits limit)) \<le> limit)"
proof -
  let ?vs = "map snd (dedupe hits [])"
  obtain k where k: "dedupe_sort hits limit = take k (sort_key distance_km ?vs)"
    using take_limit_take [of limit "sort_key distance_km ?vs"] by (auto simp: dedupe_sort_def)
  have "mset (map key_of (sort_key distance_km ?vs)) = mset (map key_of ?vs)"
    by (simp del: map_map)
  then have "distinct (map key_of (sort_key distance_km ?vs))"
    using dedupe_values_distinct [of hits] by (metis mset_eq_imp_distinct_iff)
  then have a: "distinct (map key_of (dedupe_sort hits limit))"
    by (simp add: k take_map [symmetric] del: map_map)
  have b: "\<forall>e \<in> set (dedupe_sort hits limit). \<forall>r \<in> set hits.
          key_of r = key_of e \<longrightarrow> distance_km e \<le> distance_km r"
    using dedupe_sort_subset [of hits limit] dedupe_values_minimal [of _ hits] by blast
  have "sorted (map distance_km (sort_key distance_km ?vs))" by (rule sorted_sort_key)
  then have c: "sorted (map distance_km (dedupe_sort hits limit))"
    by (simp add: k take_map [symmetric] sorted_wrt_take del: map_map)
  have d: "0 \<le> limit \<longrightarrow> int (length (dedupe_sort hits limit)) \<le> limit"
    by (auto simp: dedupe_sort_def take_limit_def)
  from a b c d show ?thesis by blast
qed

theorem dedupe_sort_invariants_witness:
  "dedupe_sort
     [\<lparr>name = lit ''A'', address = lit ''a'', lat = 1297 / 100, lon = 7759 / 100, distance_km = 3 / 2\<rparr>,
      \<lparr>name = lit ''B'', address = lit ''b'', lat = 12970001 / 1000000, lon = 7759 / 100, distance_km = 1\<rparr>,
      \<lparr>name = lit ''C'', address = lit ''c'', lat = 13, lon = 77, distance_km = 1 / 2\<rparr>] 2
   = [\<lparr>name = lit ''C'', address = lit ''c'', lat = 13, lon = 77, distance_km = 1 / 2\<rparr>,
      \<lparr>name = lit ''B'', address = lit ''b'', lat = 12970001 / 1000000, lon = 7759 / 100, distance_km = 1\<rparr>]
   \<and> sorted (map distance_km (dedupe_sort
     [\<lparr>name = lit ''A'', address = lit ''a'', lat = 1297 / 100, lon = 7759 / 100, distance_km = 3 / 2\<rparr>,
      \<lparr>name = lit ''B'', address = lit ''b'', lat = 12970001 / 1000000, lon = 7759 / 100, distance_km = 1\<rparr>,
      \<lparr>name = lit ''C'', address = lit ''c'', lat = 13, lon = 77, distance_km = 1 / 2\<rparr>] 2))
   \<and> int (length (dedupe_sort
     [\<lparr>name = lit ''A'', address = lit ''a'', lat = 1297 / 100, lon = 7759 / 100, distance_km = 3 / 2\<rparr>,
      \<lparr>name = lit ''B'', address = lit ''b'', lat = 12970001 / 1000000, lon = 7759 / 100, distance_km = 1\<rparr>,
      \<lparr>name = lit ''C'', address = lit ''c'', lat = 13, lon = 77, distance_km = 1 / 2\<rparr>] 2)) \<le> 2"
proof -
  let ?h1 = "\<lparr>name = lit ''A'', address = lit ''a'', lat = 1297 / 100, lon = 7759 / 100, distance_km = 3 / 2\<rparr>"
  let ?h2 = "\<lparr>name = lit ''B'', address = lit ''b'', lat = 12970001 / 1000000, lon = 7759 / 100, distance_km = 1\<rparr>"
  let ?h3 = "\<lparr>name = lit ''C'', address = lit ''c'', lat = 13, lon = 77, distance_km = 1 / 2\<rparr>"
  have k1: "key_of ?h1 = (1297 / 100, 7759 / 100)"
    using key_of_near [of ?h1 1297000 7759000] by simp
  have k2: "key_of ?h2 = (1297 / 100, 7759 / 100)"
    using key_of_near [of ?h2 1297000 7759000] by simp
  have k3: "key_of ?h3 = (13, 77)"
    using key_of_near [of ?h3 1300000 7700000] by simp
  have out: "dedupe_sort [?h1, ?h2, ?h3] 2 = [?h3, ?h2]"
    by (simp add: dedupe_sort_def take_limit_def store_def k1 k2 k3)
  have "(0::int) \<le> 2" by simp
  with dedupe_sort_invariants [of "[?h1, ?h2, ?h3]" 2]
  have "sorted (map distance_km (dedupe_sort [?h1, ?h2, ?h3] 2))"
    and "int (length (dedupe_sort [?h1, ?h2, ?h3] 2)) \<le> 2"
    by blast+
  with out show ?thesis by blast
qed

text \<open>
  Claim C6, as stated, fails when two hits are equally far away: the result then depends
  on the order of the input. Two hits with the same rounded coordinates and the same
  distance, differing in their names, give the one that comes first in the input.
\<close>

theorem dedupe_sort_order_counterexample:
  "mset [\<lparr>name = lit ''A'', address = lit ''a'', lat = 13, lon = 77, distance_km = 1\<rparr>,
         \<lparr>name = lit ''B'', address = lit ''b'', lat = 13, lon = 77, distance_km = 1\<rparr>]
   = mset [\<lparr>name = lit ''B'', address = lit ''b'', lat = 13, lon = 77, distance_km = 1\<rparr>,
           \<lparr>name = lit ''A'', address = lit ''a'', lat = 13, lon = 77, distance_km = 1\<rparr>]
   \<and> dedupe_sort
        [\<lparr>name = lit ''A'', address = lit ''a'', lat = 13, lon = 77, distance_km = 1\<rparr>,
         \<lparr>name = lit ''B'', address = lit ''b'', lat = 13, lon = 77, distance_km = 1\<rparr>] 5
      = [\<lparr>name = lit ''A'', address = lit ''a'', lat = 13, lon = 77, distance_km = 1\<rparr>]
   \<and> dedupe_sort
        [\<lparr>name = lit ''B'', address = lit ''b'', lat = 13, lon = 77, distance_km = 1\<rparr>,
         \<lparr>name = lit ''A'', address = lit ''a'', lat = 13, lon = 77, distance_km = 1\<rparr>] 5
      = [\<lparr>name = lit ''B'', address = lit ''b'', lat = 13, lon = 77, distance_km = 1\<rparr>]
   \<and> \<lparr>name = lit ''A'', address = lit ''a'', lat = 13, lon = 77, distance_km = 1\<rparr>
      \<noteq> \<lparr>name = lit ''B'', address = lit ''b'', lat = 13, lon = 77, distance_km = (1::rat)\<rparr>"
proof -
  let ?a = "\<lparr>name = lit ''A'', address = lit ''a'', lat = 13, lon = 77, distance_km = 1\<rparr>"
  let ?b = "\<lparr>name = lit ''B'', address = lit ''b'', lat = 13, lon = 77, distance_km = 1\<rparr>"
  have ka: "key_of ?a = (13, 77)"
    using key_of_near [of ?a 1300000 7700000] by simp
  have kb: "key_of ?b = (13, 77)"
    using key_of_near [of ?b 1300000 7700000] by simp
  have 1: "mset [?a, ?b] = mset [?b, ?a]" by simp
  have 2: "dedupe_sort [?a, ?b] 5 = [?a]"
    by (simp add: dedupe_sort_def take_limit_def store_def ka kb)
  have 3: "dedupe_sort [?b, ?a] 5 = [?b]"
    by (simp add: dedupe_sort_def take_limit_def store_def ka kb)
  have 4: "?a \<noteq> ?b" by (simp add: lit_def)
  from 1 2 3 4 show ?thesis by blast
qed

text \<open>
  Claim C6, for inputs in which no two different hits have the same \<^verbatim>\<open>distance_km\<close>: two
  inputs that are permutations of each other give the same result. And for every input
  the entry met first wins a tie: a hit that comes after a hit with the same rounded
  coordinates that is at most as far away (in particular equally far away) leaves the
  result as it is without it.
\<close>

theorem dedupe_sort_order:
  "(mset hits = mset hits' \<and> inj_on distance_km (set hits)
      \<longrightarrow> dedupe_sort hits limit = dedupe_sort hits' limit)
   \<and> (x \<in> set xs \<and> key_of x = key_of r \<and> distance_km x \<le> distance_km r
      \<longrightarrow> dedupe_sort (xs @ r # ys) limit = dedupe_sort (xs @ ys) limit)"
proof (intro conjI impI)
  assume "mset hits = mset hits' \<and> inj_on distance_km (set hits)"
  then have "set hits = set hits'" and "inj_on distance_km (set hits)"
    by (auto dest: mset_eq_setD)
  then show "dedupe_sort hits limit = dedupe_sort hits' limit" by (rule dedupe_sort_set_eq)
next
  assume "x \<in> set xs \<and> key_of x = key_of r \<and> distance_km x \<le> distance_km r"
  then have "store r (dedupe xs []) = dedupe xs []" by (blast intro: store_first_seen)
  then show "dedupe_sort (xs @ r # ys) limit = dedupe_sort (xs @ ys) limit"
    by (simp add: dedupe_sort_def dedupe_append)
qed

theorem dedupe_sort_order_witness:
  "dedupe_sort
     [\<lparr>name = lit ''A'', address = lit ''a'', lat = 1297 / 100, lon = 7759 / 100, distance_km = 3 / 2\<rparr>,
      \<lparr>name = lit ''B'', address = lit ''b'', lat = 12970001 / 1000000, lon = 7759 / 100, distance_km = 1\<rparr>,
      \<lparr>name = lit ''C'', address = lit ''c'', lat = 13, lon = 77, distance_km = 1 / 2\<rparr>] 2
   = dedupe_sort
     [\<lparr>name = lit ''C'', address = lit ''c'', lat = 13, lon = 77, distance_km = 1 / 2\<rparr>,
      \<lparr>name = lit ''B'', address = lit ''b'', lat = 12970001 / 1000000, lon = 7759 / 100, distance_km = 1\<rparr>,
      \<lparr>name = lit ''A'', address = lit ''a'', lat = 1297 / 100, lon = 7759 / 100, distance_km = 3 / 2\<rparr>] 2
   \<and> dedupe_sort
     ([\<lparr>name = lit ''A'', address = lit ''a'', lat = 13, lon = 77, distance_km = 1\<rparr>]
      @ \<lparr>name = lit ''B'', address = lit ''b'', lat = 13, lon = 77, distance_km = 1\<rparr> # []) 5
   = dedupe_sort
     ([\<lparr>name = lit ''A'', address = lit ''a'', lat = 13, lon = 77, distance_km = 1\<rparr>] @ []) 5"
proof -
  let ?h1 = "\<lparr>name = lit ''A'', address = lit ''a'', lat = 1297 / 100, lon = 7759 / 100, distance_km = 3 / 2\<rparr>"
  let ?h2 = "\<lparr>name = lit ''B'', address = lit ''b'', lat = 12970001 / 1000000, lon = 7759 / 100, distance_km = 1\<rparr>"
  let ?h3 = "\<lparr>name = lit ''C'', address = lit ''c'', lat = 13, lon = 77, distance_km = 1 / 2\<rparr>"
  let ?a = "\<lparr>name = lit ''A'', address = lit ''a'', lat = 13, lon = 77, distance_km = 1\<rparr>"
  let ?b = "\<lparr>name = lit ''B'', address = lit ''b'', lat = 13, lon = 77, distance_km = 1\<rparr>"
  have ka: "key_of ?a = (13, 77)"
    using key_of_near [of ?a 1300000 7700000] by simp
  have kb: "key_of ?b = (13, 77)"
    using key_of_near [of ?b 1300000 7700000] by simp
  have 1: "mset [?h1, ?h2, ?h3] = mset [?h3, ?h2, ?h1] \<and> inj_on distance_km (set [?h1, ?h2, ?h3])"
    by simp
  have 2: "?a \<in> set [?a] \<and> key_of ?a = key_of ?b \<and> distance_km ?a \<le> distance_km ?b"
    by (simp add: ka kb)
  from dedupe_sort_order [of "[?h1, ?h2, ?h3]" "[?h3, ?h2, ?h1]" 2 ?a "[?a]" ?b "[]"] 1
  have A: "dedupe_sort [?h1, ?h2, ?h3] 2 = dedupe_sort [?h3, ?h2, ?h1] 2" by blast
  from dedupe_sort_order [of "[?a]" "[?a]" 5 ?a "[?a]" ?b "[]"] 2
  have B: "dedupe_sort ([?a] @ ?b # []) 5 = dedupe_sort ([?a] @ []) 5" by blast
  from A B show ?thesis by blast
qed

section \<open>Properties of the search in \<^verbatim>\<open>nearby_search\<close>\<close>

lemma try_variants_found:
  "geocode w q n = (a, w1) \<Longrightarrow> answered (q, n, a) \<Longrightarrow>
   \<exists>p. a = Inr p \<and> found p \<and> try_variants geocode n (q # qs) pl (w, cs) = (p, w1, cs @ [(q, n, a)])"
  by (auto simp: answered_def split: sum.splits)

lemma try_variants_next:
  "geocode w q n = (a, w1) \<Longrightarrow> \<not> answered (q, n, a) \<Longrightarrow>
   \<exists>pl'. \<not> found pl' \<and>
      try_variants geocode n (q # qs) pl (w, cs) = try_variants geocode n qs pl' (w1, cs @ [(q, n, a)])"
proof (cases a)
  case (Inl e)
  assume "geocode w q n = (a, w1)"
  with Inl have "try_variants geocode n (q # qs) pl (w, cs) = try_variants geocode n qs None (w1, cs @ [(q, n, a)])"
    by simp
  then show ?thesis by (intro exI [of _ None]) (simp add: found_def)
next
  case (Inr p)
  assume "geocode w q n = (a, w1)" and "\<not> answered (q, n, a)"
  with Inr have "\<not> found p"
    and "try_variants geocode n (q # qs) pl (w, cs) = try_variants geocode n qs p (w1, cs @ [(q, n, a)])"
    by (simp_all add: answered_def)
  then show ?thesis by (intro exI [of _ p]) simp
qed

text \<open>
  Claim C7. The calls \<^verbatim>\<open>nearby_search\<close> makes to the geocoder are the first one to four of
  the queries \<^verbatim>\<open>query near lat,lon\<close>, \<^verbatim>\<open>query near India\<close>, \<^verbatim>\<open>query lat lon\<close> and
  \<^verbatim>\<open>query India\<close>, in this order, each with the limit \<^verbatim>\<open>limit * 2\<close>, and the log holds the
  answers the geocoder gave. Every call but the last one raised or gave no place; unless
  all four queries were tried, the last call gave a place. The result is built from the
  places of the last call alone: it is the result of the last stage on the hits made
  from these places.
\<close>

theorem nearby_search_variants:
  assumes "nearby_search geocode haversine fmt w query lat0 lon0 limit = (out, w', calls)"
  shows "calls \<noteq> [] \<and> length calls \<le> 4
     \<and> map (\<lambda>c. (fst c, fst (snd c))) calls
         = take (length calls)
             (map (\<lambda>q. (q, limit * 2)) (tries fmt query lat0 lon0 @ [fallback query]))
     \<and> replays geocode w calls w'
     \<and> (\<forall>c \<in> set (butlast calls). \<not> answered c)
     \<and> (length calls < 4 \<longrightarrow> answered (last calls))
     \<and> out = dedupe_sort (make_hits haversine query lat0 lon0 (places_of (last calls))) limit"
proof -
  define n where "n = limit * 2"
  define q1 where "q1 = query @ lit '' near '' @ fmt lat0 @ lit '','' @ fmt lon0"
  define q2 where "q2 = query @ lit '' near India''"
  define q3 where "q3 = query @ lit '' '' @ fmt lat0 @ lit '' '' @ fmt lon0"
  define q4 where "q4 = fallback query"
  have tr: "tries fmt query lat0 lon0 = [q1, q2, q3]"
    by (simp add: tries_def q1_def q2_def q3_def)
  obtain a1 w1 where g1: "geocode w q1 n = (a1, w1)" by (cases "geocode w q1 n")
  obtain a2 w2 where g2: "geocode w1 q2 n = (a2, w2)" by (cases "geocode w1 q2 n")
  obtain a3 w3 where g3: "geocode w2 q3 n = (a3, w3)" by (cases "geocode w2 q3 n")
  obtain a4 w4 where g4: "geocode w3 q4 n = (a4, w4)" by (cases "geocode w3 q4 n")
  have ns: "nearby_search geocode haversine fmt w query lat0 lon0 limit =
     (case try_variants geocode n [q1, q2, q3] None (w, []) of
        (places, w1, calls1) \<Rightarrow>
          (case (if \<not> found places then
                   (case geocode w1 q4 n of
                      (Inl e, w2) \<Rightarrow> (None, w2, calls1 @ [(q4, n, Inl e)])
                    | (Inr p, w2) \<Rightarrow> (p, w2, calls1 @ [(q4, n, Inr p)]))
                 else (places, w1, calls1)) of
             (places', st) \<Rightarrow>
               (dedupe_sort
                  (case places' of
                     None \<Rightarrow> []
                   | Some ps \<Rightarrow> make_hits haversine query lat0 lon0 ps)
                  limit,
                st)))"
    by (simp only: nearby_search_def tr n_def q4_def)
  consider (c1) "answered (q1, n, a1)"
    | (c2) "\<not> answered (q1, n, a1)" "answered (q2, n, a2)"
    | (c3) "\<not> answered (q1, n, a1)" "\<not> answered (q2, n, a2)" "answered (q3, n, a3)"
    | (c4) "\<not> answered (q1, n, a1)" "\<not> answered (q2, n, a2)" "\<not> answered (q3, n, a3)"
    by blast
  then show ?thesis
  proof cases
    case c1
    from try_variants_found [of geocode w q1 n a1 w1 "[q2, q3]" None "[]"] g1 c1 obtain p
      where p: "a1 = Inr p" "found p"
        and tv: "try_variants geocode n [q1, q2, q3] None (w, []) = (p, w1, [(q1, n, a1)])"
      by auto
    from assms have r: "out = dedupe_sort (case p of None \<Rightarrow> [] | Some ps \<Rightarrow> make_hits haversine query lat0 lon0 ps) limit"
      "w' = w1" "calls = [(q1, n, a1)]"
      unfolding ns tv by (simp_all add: p(2))
    show ?thesis
      using c1 g1 by (simp add: r tr n_def p(1) places_of_def split: option.splits)
  next
    case c2
    from try_variants_next [of geocode w q1 n a1 w1 "[q2, q3]" None "[]"] g1 c2(1) obtain pl1
      where tv1: "try_variants geocode n [q1, q2, q3] None (w, []) =
                  try_variants geocode n [q2, q3] pl1 (w1, [(q1, n, a1)])"
      by auto
    from try_variants_found [of geocode w1 q2 n a2 w2 "[q3]" pl1 "[(q1, n, a1)]"] g2 c2(2) obtain p
      where p: "a2 = Inr p" "found p"
        and tv: "try_variants geocode n [q2, q3] pl1 (w1, [(q1, n, a1)]) = (p, w2, [(q1, n, a1), (q2, n, a2)])"
      by auto
    from assms have r: "out = dedupe_sort (case p of None \<Rightarrow> [] | Some ps \<Rightarrow> make_hits haversine query lat0 lon0 ps) limit"
      "w' = w2" "calls = [(q1, n, a1), (q2, n, a2)]"
      unfolding ns tv1 tv by (simp_all add: p(2))
    show ?thesis
      using c2 g1 g2 by (simp add: r tr n_def p(1) places_of_def split: option.splits)
  next
    case c3
    from try_variants_next [of geocode w q1 n a1 w1 "[q2, q3]" None "[]"] g1 c3(1) obtain pl1
      where tv1: "try_variants geocode n [q1, q2, q3] None (w, []) =
                  try_variants geocode n [q2, q3] pl1 (w1, [(q1, n, a1)])"
      by auto
    from try_variants_next [of geocode w1 q2 n a2 w2 "[q3]" pl1 "[(q1, n, a1)]"] g2 c3(2) obtain pl2
      where tv2: "try_variants geocode n [q2, q3] pl1 (w1, [(q1, n, a1)]) =
                  try_variants geocode n [q3] pl2 (w2, [(q1, n, a1), (q2, n, a2)])"
      by auto
    from try_variants_found [of geocode w2 q3 n a3 w3 "[]" pl2 "[(q1, n, a1), (q2, n, a2)]"] g3 c3(3) obtain p
      where p: "a3 = Inr p" "found p"
        and tv: "try_variants geocode n [q3] pl2 (w2, [(q1, n, a1), (q2, n, a2)])
                 = (p, w3, [(q1, n, a1), (q2, n, a2), (q3, n, a3)])"
      by auto
    from assms have r: "out = dedupe_sort (case p of None \<Rightarrow> [] | Some ps \<Rightarrow> make_hits haversine query lat0 lon0 ps) limit"
      "w' = w3" "calls = [(q1, n, a1), (q2, n, a2), (q3, n, a3)]"
      unfolding ns tv1 tv2 tv by (simp_all add: p(2))
    show ?thesis
      using c3 g1 g2 g3 by (simp add: r tr n_def p(1) places_of_def split: option.splits)
  next
    case c4
    from try_variants_next [of geocode w q1 n a1 w1 "[q2, q3]" None "[]"] g1 c4(1) obtain pl1
      where tv1: "try_variants geocode n [q1, q2, q3] None (w, []) =
                  try_variants geocode n [q2, q3] pl1 (w1, [(q1, n, a1)])"
      by auto
    from try_variants_next [of geocode w1 q2 n a2 w2 "[q3]" pl1 "[(q1, n, a1)]"] g2 c4(2) obtain pl2
      where tv2: "try_variants geocode n [q2, q3] pl1 (w1, [(q1, n, a1)]) =
                  try_variants geocode n [q3] pl2 (w2, [(q1, n, a1), (q2, n, a2)])"
      by auto
    from try_variants_next [of geocode w2 q3 n a3 w3 "[]" pl2 "[(q1, n, a1), (q2, n, a2)]"] g3 c4(3) obtain pl3
      where pl3: "\<not> found pl3"
        and tv3: "try_variants geocode n [q3] pl2 (w2, [(q1, n, a1), (q2, n, a2)]) =
                  try_variants geocode n [] pl3 (w3, [(q1, n, a1), (q2, n, a2), (q3, n, a3)])"
      by auto
    have tv: "try_variants geocode n [q1, q2, q3] None (w, []) =
              (pl3, w3, [(q1, n, a1), (q2, n, a2), (q3, n, a3)])"
      unfolding tv1 tv2 tv3 by simp
    have hits: "(case (case a4 of Inl e \<Rightarrow> None | Inr p \<Rightarrow> p) of
                   None \<Rightarrow> [] | Some ps \<Rightarrow> make_hits haversine query lat0 lon0 ps)
                = make_hits haversine query lat0 lon0 (places_of (q4, n, a4))"
      by (auto simp: places_of_def split: sum.splits option.splits)
    from assms have r: "out = dedupe_sort (make_hits haversine query lat0 lon0 (places_of (q4, n, a4))) limit"
      "w' = w4" "calls = [(q1, n, a1), (q2, n, a2), (q3, n, a3), (q4, n, a4)]"
      using hits unfolding ns tv by (auto simp: pl3 g4 split: sum.splits)
    show ?thesis
      using c4 g1 g2 g3 g4 by (simp add: r tr n_def q4_def)
  qed
qed

theorem nearby_search_variants_witness:
  "nearby_search
     (\<lambda>w q n. (if w = (0::nat) then Inl (Exn (lit ''GeocoderTimedOut'') (lit ''Service timed out''))
                else if w = 1 then Inr (Some [])
                else Inr (Some [\<lparr>latitude = 1298 / 100, longitude = 7760 / 100,
                                   loc_address = lit ''MG Road'', display_name = Some (lit ''Legal Aid'')\<rparr>]),
                Suc w))
     (\<lambda>a b. Inr (5 / 4))
     (\<lambda>x. if x = 1297 / 100 then lit ''12.97'' else lit ''77.59'')
     0 (lit ''lawyer'') (1297 / 100) (7759 / 100) 5
   = ([\<lparr>name = lit ''Legal Aid'', address = lit ''Legal Aid'', lat = 1298 / 100, lon = 7760 / 100,
         distance_km = 5 / 4\<rparr>],
      3,
      [(lit ''lawyer near 12.97,77.59'', 10, Inl (Exn (lit ''GeocoderTimedOut'') (lit ''Service timed out''))),
       (lit ''lawyer near India'', 10, Inr (Some [])),
       (lit ''lawyer 12.97 77.59'', 10,
        Inr (Some [\<lparr>latitude = 1298 / 100, longitude = 7760 / 100,
                     loc_address = lit ''MG Road'', display_name = Some (lit ''Legal Aid'')\<rparr>]))])
   \<and> answered (lit ''lawyer 12.97 77.59'', 10,
        Inr (Some [\<lparr>latitude = 1298 / 100, longitude = 7760 / 100,
                     loc_address = lit ''MG Road'', display_name = Some (lit ''Legal Aid'')\<rparr>]))
   \<and> \<not> answered (lit ''lawyer near India'', 10, Inr (Some []))"
proof -
  let ?loc = "\<lparr>latitude = 1298 / 100, longitude = 7760 / 100,
               loc_address = lit ''MG Road'', display_name = Some (lit ''Legal Aid'')\<rparr>"
  let ?e = "Exn (lit ''GeocoderTimedOut'') (lit ''Service timed out'')"
  let ?g = "\<lambda>w q n. (if w = (0::nat) then Inl ?e
                else if w = 1 then Inr (Some [])
                else Inr (Some [?loc]), Suc w)"
  let ?hav = "\<lambda>a b. Inr (5 / 4) :: exn + rat"
  let ?fmt = "\<lambda>x::rat. if x = 1297 / 100 then lit ''12.97'' else lit ''77.59''"
  let ?hit = "\<lparr>name = lit ''Legal Aid'', address = lit ''Legal Aid'', lat = 1298 / 100, lon = 7760 / 100,
         distance_km = 5 / 4\<rparr>"
  let ?calls = "[(lit ''lawyer near 12.97,77.59'', 10::int, Inl ?e),
       (lit ''lawyer near India'', 10::int, Inr (Some [])),
       (lit ''lawyer 12.97 77.59'', 10::int, Inr (Some [?loc]))] :: call list"
  have r: "py_round (5 / 4) 2 = 5 / 4"
    using py_round_near [of "5 / 4" 2 125] by simp
  have eq: "nearby_search ?g ?hav ?fmt 0 (lit ''lawyer'') (1297 / 100) (7759 / 100) 5
            = ([?hit], 3, ?calls)"
    by (simp add: nearby_search_def tries_def fallback_def found_def dedupe_sort_def take_limit_def
          store_def make_hit_def r lit_def numeral_3_eq_3)
  note inst = nearby_search_variants [OF eq]
  have "\<forall>c \<in> set (butlast ?calls). \<not> answered c"
    by (rule inst [THEN conjunct2, THEN conjunct2, THEN conjunct2, THEN conjunct2, THEN conjunct1])
  moreover have "length ?calls < 4 \<longrightarrow> answered (last ?calls)"
    by (rule inst [THEN conjunct2, THEN conjunct2, THEN conjunct2, THEN conjunct2, THEN conjunct2,
          THEN conjunct1])
  ultimately have "answered (lit ''lawyer 12.97 77.59'', 10, Inr (Some [?loc]))"
    and "\<not> answered (lit ''lawyer near India'', 10, Inr (Some []))"
    by simp_all
  with eq show ?thesis by blast
qed

section \<open>Properties of \<^verbatim>\<open>geocode_location\<close>\<close>

text \<open>
  Claim C9. \<^verbatim>\<open>geocode_location\<close> asks the geocoder for the text followed by \<^verbatim>\<open>, India\<close>. When
  the geocoder gives a location, the result is the record of its latitude, longitude and
  address; when it gives \<^verbatim>\<open>None\<close> or raises, the result is \<^verbatim>\<open>None\<close>. The result depends on
  the geocoder through its answer to this one query only.
\<close>

theorem geocode_location_result:
  "(geocode_multi (text @ lit '', India'') = Inr (Some loc) \<longrightarrow>
      geocode_location geocode_multi text =
        Some \<lparr>g_lat = latitude loc, g_lon = longitude loc, g_address = loc_address loc\<rparr>)
   \<and> (geocode_multi (text @ lit '', India'') = Inr None \<longrightarrow>
      geocode_location geocode_multi text = None)
   \<and> (geocode_multi (text @ lit '', India'') = Inl e \<longrightarrow>
      geocode_location geocode_multi text = None)
   \<and> (other (text @ lit '', India'') = geocode_multi (text @ lit '', India'') \<longrightarrow>
      geocode_location other text = geocode_location geocode_multi text)"
  by (simp add: geocode_location_def)

theorem geocode_location_result_witness:
  "geocode_location
     (\<lambda>q. if q = lit ''Pune, India''
          then Inr (Some \<lparr>latitude = 1852 / 100, longitude = 7386 / 100,
                           loc_address = lit ''Pune, Maharashtra, India'', display_name = None\<rparr>)
          else Inr None)
     (lit ''Pune'')
   = Some \<lparr>g_lat = 1852 / 100, g_lon = 7386 / 100, g_address = lit ''Pune, Maharashtra, India''\<rparr>
   \<and> geocode_location (\<lambda>q. Inl (Exn (lit ''GeocoderTimedOut'') (lit ''Service timed out''))) (lit ''Pune'')
     = None"
proof -
  let ?loc = "\<lparr>latitude = 1852 / 100, longitude = 7386 / 100,
               loc_address = lit ''Pune, Maharashtra, India'', display_name = None\<rparr>"
  let ?g = "\<lambda>q. if q = lit ''Pune, India'' then Inr (Some ?loc) else Inr None"
  let ?r = "\<lambda>q::pystr. Inl (Exn (lit ''GeocoderTimedOut'') (lit ''Service timed out'')) :: exn + location option"
  have 1: "?g (lit ''Pune'' @ lit '', India'') = Inr (Some ?loc)" by (simp add: lit_def)
  have 2: "?r (lit ''Pune'' @ lit '', India'') = Inl (Exn (lit ''GeocoderTimedOut'') (lit ''Service timed out''))"
    by simp
  from geocode_location_result [of ?g "lit ''Pune''" ?loc] 1
  have a: "geocode_location ?g (lit ''Pune'') =
        Some \<lparr>g_lat = latitude ?loc, g_lon = longitude ?loc, g_address = loc_address ?loc\<rparr>"
    by blast
  from geocode_location_result [of ?r "lit ''Pune''" _ "Exn (lit ''GeocoderTimedOut'') (lit ''Service timed out'')"] 2
  have b: "geocode_location ?r (lit ''Pune'') = None" by blast
  from a b show ?thesis by simp
qed

section \<open>Properties of \<^verbatim>\<open>translate_text\<close>\<close>

lemma dict_get_None: "k \<notin> set (map fst m) \<Longrightarrow> dict_get m k = None"
  by (induction m) auto

text \<open>
  Claim C10. For a language name that is not a key of \<^verbatim>\<open>LANG_MAP\<close> and a text that is not
  empty, \<^verbatim>\<open>translate_text\<close> calls the translator once, with the target code \<^verbatim>\<open>en\<close>, and
  gives its translation, or the text itself when the translator raises. For the text
  \<^verbatim>\<open>None\<close> and for the empty text it gives the text back and calls nothing.
\<close>

theorem translate_text_fallback:
  "(target_language_name \<notin> set (map fst LANG_MAP) \<and> t \<noteq> [] \<longrightarrow>
      translate_text translate (Some t) target_language_name =
        (case translate (lit ''en'') t of Inr r \<Rightarrow> Some r | Inl e \<Rightarrow> Some t, [(lit ''en'', t)]))
   \<and> translate_text translate None target_language_name = (None, [])
   \<and> translate_text translate (Some []) target_language_name = (Some [], [])"
  by (simp add: translate_text_def dict_get_None Let_def)

theorem translate_text_fallback_witness:
  "lit ''French'' \<notin> set (map fst LANG_MAP)
   \<and> translate_text (\<lambda>target t. if target = lit ''en'' then Inr (lit ''Hello'') else Inr (lit ''?''))
        (Some (lit ''Bonjour'')) (lit ''French'')
     = (Some (lit ''Hello''), [(lit ''en'', lit ''Bonjour'')])"
proof -
  let ?tr = "\<lambda>target t::pystr. if target = lit ''en'' then Inr (lit ''Hello'') else Inr (lit ''?'') :: exn + pystr"
  have 1: "lit ''French'' \<notin> set (map fst LANG_MAP)" by (simp add: LANG_MAP_def lit_def)
  have 2: "lit ''Bonjour'' \<noteq> []" by (simp add: lit_def)
  from translate_text_fallback [of "lit ''French''" "lit ''Bonjour''" ?tr] 1 2
  have "translate_text ?tr (Some (lit ''Bonjour'')) (lit ''French'') =
        (case ?tr (lit ''en'') (lit ''Bonjour'') of Inr r \<Rightarrow> Some r | Inl e \<Rightarrow> Some (lit ''Bonjour''),
         [(lit ''en'', lit ''Bonjour'')])"
    by blast
  with 1 show ?thesis by simp
qed

section \<open>Properties of \<^verbatim>\<open>call_gemini\<close>\<close>

text \<open>
  The decoder reads the text \<^verbatim>\<open>json.dumps\<close> writes for a string back to that string, when
  the string holds no high surrogate.
\<close>

lemma hex_val_hex_digit: "d < 16 \<Longrightarrow> hex_val (hex_digit d) = Some d"
  by (simp add: hex_val_def hex_digit_def)

lemma hex_digits_value:
  fixes n :: nat
  shows "((n div 4096 * 16 + n div 256 mod 16) * 16 + n div 16 mod 16) * 16 + n mod 16 = n"
proof -
  have a: "n div 4096 * 16 + n div 256 mod 16 = n div 256"
    using div_mult_mod_eq [of "n div 256" 16] by (simp add: div_mult2_eq [symmetric])
  have b: "n div 256 * 16 + n div 16 mod 16 = n div 16"
    using div_mult_mod_eq [of "n div 16" 16] by (simp add: div_mult2_eq [symmetric])
  show ?thesis by (simp only: a b) simp
qed

lemma hex4_hex_digits:
  assumes "n < 65536"
  shows "hex4 (hex_digit (n div 4096)) (hex_digit (n div 256 mod 16))
              (hex_digit (n div 16 mod 16)) (hex_digit (n mod 16)) = Some n"
proof -
  from assms have 1: "hex_val (hex_digit (n div 4096)) = Some (n div 4096)"
    by (intro hex_val_hex_digit) simp
  have 2: "hex_val (hex_digit (n div 256 mod 16)) = Some (n div 256 mod 16)"
    by (intro hex_val_hex_digit) simp
  have 3: "hex_val (hex_digit (n div 16 mod 16)) = Some (n div 16 mod 16)"
    by (intro hex_val_hex_digit) simp
  have 4: "hex_val (hex_digit (n mod 16)) = Some (n mod 16)"
    by (intro hex_val_hex_digit) simp
  show ?thesis
    by (simp only: hex4_def 1 2 3 4 option.case hex_digits_value)
qed

lemma decode_u_digits:
  "n < 65536 \<Longrightarrow>
   decode_uXXXX (hex_digit (n div 4096) # hex_digit (n div 256 mod 16) #
      hex_digit (n div 16 mod 16) # hex_digit (n mod 16) # t) = Some n"
  by (simp add: decode_uXXXX_def hex4_hex_digits)

lemma scanstring_u_escape:
  assumes "n < 65536" and "\<not> is_high_surrogate n"
  shows "scanstring (u_escape n @ t) = cons_char n (scanstring t)"
  using assms by (simp add: u_escape_def decode_u_digits)

lemma scanstring_pair:
  assumes "hi < 65536" and "is_high_surrogate hi" and "lo < 65536" and "is_low_surrogate lo"
    and "t \<noteq> []"
  shows "scanstring (u_escape hi @ u_escape lo @ t) = cons_char (join_surrogates hi lo) (scanstring t)"
proof -
  from assms(5) have "0 < length t" by simp
  with assms(1-4) show ?thesis
    by (simp add: u_escape_def decode_u_digits)
qed

lemma scanstring_escape_char:
  assumes "c < 1114112" and "\<not> is_high_surrogate c" and "t \<noteq> []"
  shows "scanstring (escape_char c @ t) = cons_char c (scanstring t)"
proof -
  consider (short) "c \<in> {34, 92, 10, 13, 9, 12, 8}"
    | (plain) "c \<notin> {34, 92, 10, 13, 9, 12, 8}" "32 \<le> c" "c \<le> 126"
    | (bmp) "c \<notin> {34, 92, 10, 13, 9, 12, 8}" "\<not> (32 \<le> c \<and> c \<le> 126)" "c < 65536"
    | (astral) "65536 \<le> c"
    by fastforce
  then show ?thesis
  proof cases
    case short
    then show ?thesis by (auto simp: escape_char_def unescape_def)
  next
    case plain
    then show ?thesis by (simp add: escape_char_def)
  next
    case bmp
    then have "escape_char c = u_escape c" by (auto simp: escape_char_def)
    with bmp(3) assms(2) show ?thesis by (simp add: scanstring_u_escape)
  next
    case astral
    define v where "v = c - 65536"
    from astral assms(1) have v: "v < 1048576" and c: "c = 65536 + v" by (simp_all add: v_def)
    from v have d: "v div 1024 < 1024" by simp
    have e: "escape_char c = u_escape (55296 + v div 1024) @ u_escape (56320 + v mod 1024)"
      using astral by (simp add: escape_char_def v_def)
    have j: "join_surrogates (55296 + v div 1024) (56320 + v mod 1024) = c"
      by (simp add: join_surrogates_def c)
    have "scanstring (u_escape (55296 + v div 1024) @ u_escape (56320 + v mod 1024) @ t)
          = cons_char (join_surrogates (55296 + v div 1024) (56320 + v mod 1024)) (scanstring t)"
      using d assms(3) by (intro scanstring_pair) (simp_all add: is_high_surrogate_def is_low_surrogate_def)
    then show ?thesis by (simp add: e j)
  qed
qed

lemma scanstring_escaped:
  assumes "\<forall>c \<in> set m. c < 1114112 \<and> \<not> is_high_surrogate c"
  shows "scanstring (concat (map escape_char m) @ 34 # t) = Some (m, t)"
  using assms
proof (induction m)
  case Nil
  then show ?case by simp
next
  case (Cons c m)
  have "scanstring (escape_char c @ (concat (map escape_char m) @ 34 # t))
        = cons_char c (scanstring (concat (map escape_char m) @ 34 # t))"
    using Cons.prems by (intro scanstring_escape_char) simp_all
  with Cons show ?case by (simp add: cons_char_def)
qed

lemma json_loads_dumps_error:
  assumes "\<forall>c \<in> set m. c < 1114112 \<and> \<not> is_high_surrogate c"
  shows "json_loads (dumps_error m) = Some (JObject [(lit ''error'', JString m)])"
proof -
  define E where "E = concat (map escape_char m)"
  have s: "dumps_error m = 123 # 34 # 101 # 114 # 114 # 111 # 114 # 34 # 58 # 32 # 34 # E @ [34, 125]"
    by (simp add: dumps_error_def encode_basestring_ascii_def lit_def E_def)
  obtain k where k: "2 * length (dumps_error m) + 2 = Suc (Suc (Suc k))"
    by (simp add: s)
  have key: "scanstring (101 # 114 # 114 # 111 # 114 # 34 # 58 # 32 # 34 # E @ [34, 125])
             = Some (lit ''error'', 58 # 32 # 34 # E @ [34, 125])"
    by (simp add: cons_char_def lit_def)
  have val: "scanstring (E @ [34, 125]) = Some (m, [125])"
    using scanstring_escaped [OF assms, of "[125]"] by (simp add: E_def)
  have sk: "skip_ws (123 # 34 # 101 # 114 # 114 # 111 # 114 # 34 # 58 # 32 # 34 # E @ [34, 125])
            = 123 # 34 # 101 # 114 # 114 # 111 # 114 # 34 # 58 # 32 # 34 # E @ [34, 125]"
    by (simp add: skip_ws_def is_json_ws_def)
  have sk1: "skip_ws (34 # 101 # 114 # 114 # 111 # 114 # 34 # 58 # 32 # 34 # E @ [34, 125])
            = 34 # 101 # 114 # 114 # 111 # 114 # 34 # 58 # 32 # 34 # E @ [34, 125]"
    by (simp add: skip_ws_def is_json_ws_def)
  have sk2: "skip_ws (58 # 32 # 34 # E @ [34, 125]) = 58 # 32 # 34 # E @ [34, 125]"
    by (simp add: skip_ws_def is_json_ws_def)
  have sk3: "skip_ws (32 # 34 # E @ [34, 125]) = 34 # E @ [34, 125]"
    by (simp add: skip_ws_def is_json_ws_def)
  have sk4: "skip_ws [125] = [125]" by (simp add: skip_ws_def is_json_ws_def)
  have v: "scan_once (Suc k) (34 # E @ [34, 125]) = Parsed (JString m) [125]"
    by (simp add: val)
  have po: "parse_object (Suc (Suc k)) (34 # 101 # 114 # 114 # 111 # 114 # 34 # 58 # 32 # 34 # E @ [34, 125]) []
            = Parsed (JObject [(lit ''error'', JString m)]) []"
    by (simp only: parse_object.simps list.case key option.case prod.case sk2 sk3 v scan.case sk4)
       simp
  have so: "scan_once (Suc (Suc (Suc k))) (123 # 34 # 101 # 114 # 114 # 111 # 114 # 34 # 58 # 32 # 34 # E @ [34, 125])
            = Parsed (JObject [(lit ''error'', JString m)]) []"
    by (simp only: scan_once.simps sk1 list.case po) simp
  show ?thesis
    unfolding json_loads_def k unfolding s sk so by (simp add: skip_ws_def)
qed

text \<open>
  Claim C8. \<^verbatim>\<open>call_gemini\<close> has a value in every case. When calling the model raises, so does
  the \<^verbatim>\<open>try\<close> block; when the \<^verbatim>\<open>try\<close> block raises \<open>e\<close>, the value is the text
  \<^verbatim>\<open>json.dumps({"error": "kind: message"})\<close> for the class name and the message of \<open>e\<close>; when
  the block returns a value, this value is the result. The text for an exception is a
  JSON object: it decodes to the object with the one key \<^verbatim>\<open>error\<close> and the string
  \<^verbatim>\<open>kind: message\<close>, when name and message hold no high surrogate.
\<close>

theorem call_gemini_error_payload:
  "(generate_content model_name prompt = Inl e \<longrightarrow>
      call_gemini_try generate_content dumps prompt model_name = Inl e)
   \<and> (call_gemini_try generate_content dumps prompt model_name = Inl e \<longrightarrow>
      call_gemini generate_content dumps prompt model_name
        = PStr (dumps_error (kind e @ lit '': '' @ message e)))
   \<and> (call_gemini_try generate_content dumps prompt model_name = Inr v \<longrightarrow>
      call_gemini generate_content dumps prompt model_name = v)
   \<and> ((\<forall>c \<in> set (kind e @ message e). c < 1114112 \<and> \<not> is_high_surrogate c) \<longrightarrow>
      json_loads (dumps_error (kind e @ lit '': '' @ message e))
        = Some (JObject [(lit ''error'', JString (kind e @ lit '': '' @ message e))]))"
proof (intro conjI impI)
  assume "\<forall>c \<in> set (kind e @ message e). c < 1114112 \<and> \<not> is_high_surrogate c"
  then have "\<forall>c \<in> set (kind e @ lit '': '' @ message e). c < 1114112 \<and> \<not> is_high_surrogate c"
    by (auto simp: lit_def is_high_surrogate_def)
  then show "json_loads (dumps_error (kind e @ lit '': '' @ message e))
        = Some (JObject [(lit ''error'', JString (kind e @ lit '': '' @ message e))])"
    by (rule json_loads_dumps_error)
qed (simp_all add: call_gemini_def call_gemini_try_def)

theorem call_gemini_error_payload_witness:
  "call_gemini (\<lambda>model_name prompt. Inl (Exn (lit ''ValueError'') (lit ''bad \"key\"'')))
               (\<lambda>v. Inr []) (lit ''hello'') (lit ''gemini-2.5-flash'')
   = PStr (lit ''{\"error\": \"ValueError: bad '' @ [92, 34] @ lit ''key'' @ [92, 34] @ lit ''\"}'')
   \<and> json_loads (lit ''{\"error\": \"ValueError: bad '' @ [92, 34] @ lit ''key'' @ [92, 34] @ lit ''\"}'')
     = Some (JObject [(lit ''error'', JString (lit ''ValueError: bad \"key\"''))])"
proof -
  let ?e = "Exn (lit ''ValueError'') (lit ''bad \"key\"'')"
  let ?gen = "\<lambda>model_name prompt :: pystr. Inl ?e :: exn + response"
  let ?dumps = "\<lambda>v :: pyval. Inr [] :: exn + pystr"
  have d: "dumps_error (lit ''ValueError: bad \"key\"'')
           = lit ''{\"error\": \"ValueError: bad '' @ [92, 34] @ lit ''key'' @ [92, 34] @ lit ''\"}''"
    by (simp add: dumps_error_def encode_basestring_ascii_def escape_char_def lit_def)
  have m: "kind ?e @ lit '': '' @ message ?e = lit ''ValueError: bad \"key\"''"
    by (simp add: lit_def)
  have 1: "?gen (lit ''gemini-2.5-flash'') (lit ''hello'') = Inl ?e" by simp
  have 2: "\<forall>c \<in> set (kind ?e @ message ?e). c < 1114112 \<and> \<not> is_high_surrogate c"
    by (simp add: lit_def is_high_surrogate_def)
  note inst = call_gemini_error_payload [of ?gen "lit ''gemini-2.5-flash''" "lit ''hello''" ?e ?dumps]
  from inst 1 have "call_gemini_try ?gen ?dumps (lit ''hello'') (lit ''gemini-2.5-flash'') = Inl ?e"
    by blast
  with inst have a: "call_gemini ?gen ?dumps (lit ''hello'') (lit ''gemini-2.5-flash'')
        = PStr (dumps_error (kind ?e @ lit '': '' @ message ?e))"
    by blast
  from inst 2 have b: "json_loads (dumps_error (kind ?e @ lit '': '' @ message ?e))
        = Some (JObject [(lit ''error'', JString (kind ?e @ lit '': '' @ message ?e))])"
    by blast
  from a have a': "call_gemini ?gen ?dumps (lit ''hello'') (lit ''gemini-2.5-flash'')
        = PStr (lit ''{\"error\": \"ValueError: bad '' @ [92, 34] @ lit ''key'' @ [92, 34] @ lit ''\"}'')"
    by (simp only: m d)
  from b have b': "json_loads (lit ''{\"error\": \"ValueError: bad '' @ [92, 34] @ lit ''key'' @ [92, 34] @ lit ''\"}'')
        = Some (JObject [(lit ''error'', JString (lit ''ValueError: bad \"key\"''))])"
    by (simp only: m d)
  from a' b' show ?thesis by (rule conjI)
qed

end
